theory Spec2Isabelle
  imports Main "HOL-Library.Sublist"
begin

section \<open>QCJob: array-job scripts, FASTQ resolution and output quarantine\<close>

text \<open>
  A shallow embedding of \<^verbatim>\<open>sequence_processing_pipeline/QCJob.py\<close>.
  Python strings are \<open>string\<close> (file names and paths are taken to be ASCII),
  Python integers are \<open>int\<close>, sizes and counts are \<open>nat\<close>. Exceptions are values
  of the type \<open>error\<close>; an operation that touches the disk returns its outcome
  together with the disk as it is when the operation returns or raises. The
  command list of \<^verbatim>\<open>QCHelper\<close> and the paths of \<^verbatim>\<open>Job.generate_job_script_path\<close>
  come from other modules and are parameters here.
\<close>

subsection \<open>Strings and paths\<close>

type_synonym path = string

definition newline :: char where
  "newline = CHR 0x0A"

text \<open>\<^verbatim>\<open>sep.join(xs)\<close>\<close>

fun str_join :: "string \<Rightarrow> string list \<Rightarrow> string" where
  "str_join sep [] = []"
| "str_join sep [x] = x"
| "str_join sep (x # y # ys) = x @ sep @ str_join sep (y # ys)"

text \<open>\<^verbatim>\<open>"%d" % n\<close> for an integer: decimal digits, a minus sign when negative.\<close>

definition digit_char :: "nat \<Rightarrow> char" where
  "digit_char d = ''0123456789'' ! d"

fun str_nat :: "nat \<Rightarrow> string" where
  "str_nat n = (if n < 10 then [digit_char n] else str_nat (n div 10) @ [digit_char (n mod 10)])"

declare str_nat.simps [simp del]

definition str_int :: "int \<Rightarrow> string" where
  "str_int i = (if i < 0 then CHR ''-'' # str_nat (nat (- i)) else str_nat (nat i))"

text \<open>The ten ASCII digits.\<close>

definition is_digit :: "char \<Rightarrow> bool" where
  "is_digit c = (c \<in> set ''0123456789'')"

text \<open>
  \<^verbatim>\<open>os.path.join(a, b)\<close> (posixpath): an absolute \<open>b\<close> replaces \<open>a\<close>; otherwise
  the two are put together with one separator, unless \<open>a\<close> is empty or already
  ends with one.
\<close>

definition join :: "path \<Rightarrow> string \<Rightarrow> path" where
  "join a b =
     (if b \<noteq> [] \<and> hd b = CHR ''/'' then b
      else if a = [] \<or> last a = CHR ''/'' then a @ b
      else a @ ''/'' @ b)"

subsection \<open>Errors, values and the disk\<close>

datatype error =
    FileNotFoundError path
  | FileExistsError path
  | ShutilError path
  | OSError path

text \<open>
  What the generator sees of the disk: the content of each file, the paths that
  \<^verbatim>\<open>open(p, 'w')\<close> cannot open (missing parent directory, permissions, a
  directory of that name), and the chronological list of the paths that have been
  written and closed.
\<close>

record disk =
  files :: "path \<rightharpoonup> string"
  unwritable :: "path set"
  written :: "path list"

text \<open>\<^verbatim>\<open>with open(p, 'w') as f: f.write(content)\<close>\<close>

definition write_file :: "path \<Rightarrow> string \<Rightarrow> disk \<Rightarrow> error + disk" where
  "write_file p content d =
     (if p \<in> unwritable d then Inl (OSError p)
      else Inr (d\<lparr>files := (files d)(p \<mapsto> content), written := written d @ [p]\<rparr>))"

subsection \<open>The job object\<close>

record qcjob =
  run_dir :: path
  products_dir :: path
  sample_ids :: "(string \<times> string) list"
  queue_name :: string
  node_count :: int
  nprocs :: int
  wall_time_limit :: int
  jmem :: string
  modules_to_load :: "string list"
  qiita_job_id :: string
  pool_size :: int
  split_file_prefix :: string

subsection \<open>\<^verbatim>\<open>_generate_job_script\<close>\<close>

text \<open>
  The path of the command table:
  \<^verbatim>\<open>join(self.run_dir, f'{self.split_file_prefix}{project_name}.array-details')\<close>.
\<close>

definition sh_details_fp :: "qcjob \<Rightarrow> string \<Rightarrow> path" where
  "sh_details_fp self project_name =
     join (run_dir self) (split_file_prefix self @ project_name @ ''.array-details'')"

text \<open>\<^verbatim>\<open>"#PBS -t 1-%d%%%d" % (len(cmds), self.pool_size)\<close>\<close>

definition array_directive :: "nat \<Rightarrow> int \<Rightarrow> string" where
  "array_directive n p = ''#PBS -t 1-'' @ str_int (int n) @ ''%'' @ str_int p"

text \<open>
  The lines of the script, in the order the source appends them. The three paths
  are what \<^verbatim>\<open>self.generate_job_script_path()\<close> returned and \<open>cmds\<close> is what
  \<^verbatim>\<open>QCHelper(...).generate_commands()\<close> returned; both belong to classes outside
  this module and are taken as given.
\<close>

definition task_body :: "path \<Rightarrow> string list" where
  "task_body table =
     [''offset=${PBS_ARRAYID}'',
      ''step=$(( $offset - 0 ))'',
      ''cmd0=$(head -n $step '' @ table @ '' | tail -n 1)'',
      ''eval $cmd0'']"

definition script_lines :: "qcjob \<Rightarrow> string \<Rightarrow> path \<Rightarrow> path \<Rightarrow> string list \<Rightarrow> string list" where
  "script_lines self project_name output_log_path error_log_path cmds =
     [''#!/bin/bash'',
      ''#PBS -N '' @ qiita_job_id self @ ''_QCJob_'' @ project_name,
      ''#PBS -q '' @ queue_name self,
      ''#PBS -l nodes='' @ str_int (node_count self) @ '':ppn='' @ str_int (nprocs self),
      ''#PBS -V'',
      ''#PBS -l walltime='' @ str_int (wall_time_limit self) @ '':00:00'',
      ''#PBS -l mem='' @ jmem self,
      ''#PBS -o localhost:'' @ output_log_path @ ''.${PBS_ARRAYID}'',
      ''#PBS -e localhost:'' @ error_log_path @ ''.${PBS_ARRAYID}'',
      array_directive (length cmds) (pool_size self),
      ''set -x'',
      ''date'',
      ''hostname'',
      ''echo ${PBS_JOBID} ${PBS_ARRAYID}'',
      ''cd '' @ run_dir self]
     @ (if modules_to_load self \<noteq> []
        then [''module load '' @ str_join '' '' (modules_to_load self)] else [])
     @ task_body (sh_details_fp self project_name)"

text \<open>
  The script is written first, the command table second; the function returns the
  path of the script. A failing \<^verbatim>\<open>open\<close> leaves the disk as it is at that moment.
\<close>

definition generate_job_script ::
  "qcjob \<Rightarrow> string \<Rightarrow> path \<times> path \<times> path \<Rightarrow> string list \<Rightarrow> disk \<Rightarrow> (error + path) \<times> disk" where
  "generate_job_script self project_name paths cmds d =
     (case paths of (job_script_path, output_log_path, error_log_path) \<Rightarrow>
        let lines = script_lines self project_name output_log_path error_log_path cmds in
        (case write_file job_script_path (str_join [newline] lines) d of
           Inl e \<Rightarrow> (Inl e, d)
         | Inr d1 \<Rightarrow>
             (case write_file (sh_details_fp self project_name) (str_join [newline] cmds) d1 of
                Inl e \<Rightarrow> (Inl e, d1)
              | Inr d2 \<Rightarrow> (Inr job_script_path, d2))))"

subsection \<open>What an array task reads\<close>

text \<open>
  A text file is a sequence of lines, each ended by a newline; characters after
  the last newline form a last line when there are any. \<^verbatim>\<open>head -n k\<close> keeps
  the first \<open>k\<close> lines, \<^verbatim>\<open>tail -n 1\<close> the last line of what it is given.
\<close>

fun split_acc :: "string \<Rightarrow> string \<Rightarrow> string list" where
  "split_acc cur [] = (if cur = [] then [] else [cur])"
| "split_acc cur (c # cs) =
     (if c = newline then cur # split_acc [] cs else split_acc (cur @ [c]) cs)"

definition text_lines :: "string \<Rightarrow> string list" where
  "text_lines s = split_acc [] s"

definition head_n :: "nat \<Rightarrow> string list \<Rightarrow> string list" where
  "head_n k ls = take k ls"

definition tail_1 :: "string list \<Rightarrow> string" where
  "tail_1 ls = (if ls = [] then [] else last ls)"

subsection \<open>The script as the shell runs it\<close>

text \<open>
  The generated file is shell text, run once per array task with the task's
  index in \<^verbatim>\<open>PBS_ARRAYID\<close>. What a task does is read off the lines that are in
  the file: each line is parsed, and a line that is none of the forms below is
  not given a meaning (\<open>None\<close>).
\<close>

definition strip_prefix :: "string \<Rightarrow> string \<Rightarrow> string option" where
  "strip_prefix p s = (if prefix p s then Some (drop (length p) s) else None)"

definition strip_suffix :: "string \<Rightarrow> string \<Rightarrow> string option" where
  "strip_suffix x s = (if suffix x s then Some (take (length s - length x) s) else None)"

fun split_on :: "string \<Rightarrow> string \<Rightarrow> string \<Rightarrow> (string \<times> string) option" where
  "split_on sep seen [] = None"
| "split_on sep seen (c # cs) =
     (if prefix sep (c # cs) then Some (seen, drop (length sep) (c # cs))
      else split_on sep (seen @ [c]) cs)"
text \<open>
  A variable name, and a word that the shell passes on as it is written: made of
  letters, digits and a few punctuation characters, with no blank, quote,
  dollar sign or other character that the shell expands or splits, and not
  beginning with a dash.
\<close>

definition name_char :: "char \<Rightarrow> bool" where
  "name_char c =
     (c \<in> set ''abcdefghijklmnopqrstuvwxyzABCDEFGHIJKLMNOPQRSTUVWXYZ0123456789_'')"

definition is_name :: "string \<Rightarrow> bool" where
  "is_name n = (n \<noteq> [] \<and> list_all name_char n \<and> \<not> is_digit (hd n))"

definition word_char :: "char \<Rightarrow> bool" where
  "word_char c = (name_char c \<or> c \<in> set ''/.-+:,@%'')"

definition is_word :: "string \<Rightarrow> bool" where
  "is_word w = (w \<noteq> [] \<and> list_all word_char w \<and> hd w \<noteq> CHR ''-'')"
text \<open>A decimal number as \<^verbatim>\<open>$(( ))\<close> and \<^verbatim>\<open>head -n\<close> both read it: no leading zero.\<close>

definition digit_val :: "char \<Rightarrow> nat" where
  "digit_val c = length (takeWhile (\<lambda>d. d \<noteq> c) ''0123456789'')"

definition read_nat :: "string \<Rightarrow> nat option" where
  "read_nat s =
     (if s \<noteq> [] \<and> list_all is_digit s \<and> (hd s \<noteq> CHR ''0'' \<or> length s = 1)
      then Some (foldl (\<lambda>a c. 10 * a + digit_val c) 0 s) else None)"
text \<open>
  The right-hand sides that occur: \<^verbatim>\<open>${NAME}\<close>, \<^verbatim>\<open>$(( $NAME - k ))\<close> and
  \<^verbatim>\<open>$(head -n $NAME FILE | tail -n 1)\<close>; and the commands: an assignment, \<^verbatim>\<open>cd\<close>,
  \<^verbatim>\<open>eval $NAME\<close>, and the lines that change neither the variables nor the
  working directory.
\<close>

datatype shell_word = Param string | Arith string nat | HeadTail string path

datatype shell_command = NoOp | Assign string shell_word | Cd path | Eval string
definition parse_word :: "string \<Rightarrow> shell_word option" where
  "parse_word w =
     (case strip_prefix ''${'' w of
        Some r \<Rightarrow>
          (case strip_suffix ''}'' r of
             Some n \<Rightarrow> if is_name n then Some (Param n) else None
           | None \<Rightarrow> None)
      | None \<Rightarrow>
     (case strip_prefix ''$(( $'' w of
        Some r \<Rightarrow>
          (case strip_suffix '' ))'' r of
             Some m \<Rightarrow>
               (case split_on '' - '' [] m of
                  Some (n, k) \<Rightarrow>
                    (case read_nat k of
                       Some j \<Rightarrow> if is_name n then Some (Arith n j) else None
                     | None \<Rightarrow> None)
                | None \<Rightarrow> None)
           | None \<Rightarrow> None)
      | None \<Rightarrow>
     (case strip_prefix ''$(head -n $'' w of
        Some r \<Rightarrow>
          (case strip_suffix '' | tail -n 1)'' r of
             Some m \<Rightarrow>
               (case split_on '' '' [] m of
                  Some (n, p) \<Rightarrow> if is_name n \<and> is_word p then Some (HeadTail n p) else None
                | None \<Rightarrow> None)
           | None \<Rightarrow> None)
      | None \<Rightarrow> None)))"
text \<open>
  Empty lines, comments (the \<^verbatim>\<open>#PBS\<close> directives are comments to the shell),
  \<^verbatim>\<open>set -x\<close>, \<^verbatim>\<open>date\<close>, \<^verbatim>\<open>hostname\<close>, the \<^verbatim>\<open>echo\<close> of the two job
  variables, and \<^verbatim>\<open>module load\<close> of plain words: they print, trace or load
  environment modules, and are taken to leave the working directory and the
  variables of the task body as they are.
\<close>

definition no_effect :: "string \<Rightarrow> bool" where
  "no_effect l =
     (l = [] \<or> hd l = CHR ''#''
      \<or> l \<in> {''set -x'', ''date'', ''hostname'', ''echo ${PBS_JOBID} ${PBS_ARRAYID}''}
      \<or> (case strip_prefix ''module load '' l of
            Some ms \<Rightarrow> list_all (\<lambda>c. word_char c \<or> c = CHR '' '') ms
          | None \<Rightarrow> False))"
definition parse_line :: "string \<Rightarrow> shell_command option" where
  "parse_line l =
     (if no_effect l then Some NoOp
      else
        (case strip_prefix ''cd '' l of
           Some w \<Rightarrow> if is_word w then Some (Cd w) else None
         | None \<Rightarrow>
        (case strip_prefix ''eval $'' l of
           Some n \<Rightarrow> if is_name n then Some (Eval n) else None
         | None \<Rightarrow>
        (case split_on ''='' [] l of
           Some (n, w) \<Rightarrow> if is_name n then map_option (Assign n) (parse_word w) else None
         | None \<Rightarrow> None))))"
text \<open>
  The state of a running task: its working directory, its variables, and the
  texts it has handed to \<^verbatim>\<open>eval\<close>, in order. A path that does not begin with a
  slash is relative: for the shell to its working directory, for the generator
  to the directory in which it ran, which the empty working directory stands
  for.
\<close>

record task =
  cwd :: path
  vars :: "string \<rightharpoonup> string"
  evaluated :: "string list"
text \<open>An unset variable expands to nothing; \<^verbatim>\<open>head\<close> of a missing file prints nothing.\<close>

definition expand :: "task \<Rightarrow> string \<Rightarrow> string" where
  "expand t n = (case vars t n of None \<Rightarrow> [] | Some v \<Rightarrow> v)"

definition read_file :: "(path \<rightharpoonup> string) \<Rightarrow> path \<Rightarrow> string" where
  "read_file fs p = (case fs p of None \<Rightarrow> [] | Some c \<Rightarrow> c)"
text \<open>
  The value of a right-hand side. \<^verbatim>\<open>$( )\<close> drops the newline that ends the
  line printed by \<^verbatim>\<open>tail\<close>.
\<close>

definition word_value :: "(path \<rightharpoonup> string) \<Rightarrow> task \<Rightarrow> shell_word \<Rightarrow> string option" where
  "word_value fs t w =
     (case w of
        Param n \<Rightarrow> Some (expand t n)
      | Arith n j \<Rightarrow>
          (case read_nat (expand t n) of
             Some a \<Rightarrow> if j \<le> a then Some (str_nat (a - j)) else None
           | None \<Rightarrow> None)
      | HeadTail n p \<Rightarrow>
          (case read_nat (expand t n) of
             Some k \<Rightarrow> Some (tail_1 (head_n k (text_lines (read_file fs (join (cwd t) p)))))
           | None \<Rightarrow> None))"
text \<open>
  \<^verbatim>\<open>cd\<close> is taken to succeed. \<^verbatim>\<open>eval $NAME\<close> is recorded with the value of the
  variable, which is the text the shell then splits into words and runs.
\<close>

definition exec :: "(path \<rightharpoonup> string) \<Rightarrow> shell_command \<Rightarrow> task \<Rightarrow> task option" where
  "exec fs c t =
     (case c of
        NoOp \<Rightarrow> Some t
      | Assign n w \<Rightarrow> map_option (\<lambda>v. t\<lparr>vars := (vars t)(n \<mapsto> v)\<rparr>) (word_value fs t w)
      | Cd w \<Rightarrow> Some (t\<lparr>cwd := join (cwd t) w\<rparr>)
      | Eval n \<Rightarrow> Some (t\<lparr>evaluated := evaluated t @ [expand t n]\<rparr>))"

fun run_lines :: "(path \<rightharpoonup> string) \<Rightarrow> string list \<Rightarrow> task \<Rightarrow> task option" where
  "run_lines fs [] t = Some t"
| "run_lines fs (l # ls) t =
     (case parse_line l of
        None \<Rightarrow> None
      | Some c \<Rightarrow>
          (case exec fs c t of
             None \<Rightarrow> None
           | Some t' \<Rightarrow> run_lines fs ls t'))"
text \<open>
  A task: the lines of the script file at \<open>script\<close>, run from \<open>start_dir\<close> with
  \<^verbatim>\<open>PBS_ARRAYID\<close> set to the decimal index.
\<close>

definition run_task :: "(path \<rightharpoonup> string) \<Rightarrow> path \<Rightarrow> path \<Rightarrow> nat \<Rightarrow> task option" where
  "run_task fs script start_dir arrayid =
     (case fs script of
        None \<Rightarrow> None
      | Some text \<Rightarrow>
          run_lines fs (text_lines text)
            \<lparr>cwd = start_dir, vars = [''PBS_ARRAYID'' \<mapsto> str_nat arrayid], evaluated = []\<rparr>)"
text \<open>
  Job settings with which every line of the script is one of the forms above:
  no setting that goes into a directive holds a line break, the run directory
  is an absolute path, and the run directory, the path of the command table and
  the module names are plain words.
\<close>

definition single_line :: "string \<Rightarrow> bool" where
  "single_line s = (newline \<notin> set s)"

definition well_formed_script :: "qcjob \<Rightarrow> string \<Rightarrow> path \<Rightarrow> path \<Rightarrow> bool" where
  "well_formed_script self project_name output_log_path error_log_path =
     (single_line (qiita_job_id self) \<and> single_line project_name \<and> single_line (queue_name self)
      \<and> single_line (jmem self) \<and> single_line output_log_path \<and> single_line error_log_path
      \<and> is_word (run_dir self) \<and> hd (run_dir self) = CHR ''/''
      \<and> is_word (sh_details_fp self project_name)
      \<and> list_all is_word (modules_to_load self))"

subsection \<open>A concrete job\<close>

definition example_job :: qcjob where
  "example_job =
     \<lparr>run_dir = ''/run'', products_dir = ''/products'',
      sample_ids = [(''s1'', ''ProjectA''), (''s2'', ''ProjectA''), (''t1'', ''ProjectB'')],
      queue_name = ''qiita'', node_count = 1, nprocs = 16, wall_time_limit = 24,
      jmem = ''8gb'', modules_to_load = [''fastp_0.20.1'', ''samtools_1.12''],
      qiita_job_id = ''abcdabcd'', pool_size = 5, split_file_prefix = ''split_file_''\<rparr>"

definition example_paths :: "path \<times> path \<times> path" where
  "example_paths = (''/run/QCJob_1.sh'', ''/run/QCJob_1.out.log'', ''/run/QCJob_1.err.log'')"

definition example_disk :: disk where
  "example_disk = \<lparr>files = Map.empty, unwritable = {}, written = []\<rparr>"

text \<open>The same job with a relative run directory.\<close>

definition relative_job :: qcjob where
  "relative_job = example_job\<lparr>run_dir := ''data/run''\<rparr>"

definition relative_paths :: "path \<times> path \<times> path" where
  "relative_paths =
     (''data/run/QCJob_1.sh'', ''data/run/QCJob_1.out.log'', ''data/run/QCJob_1.err.log'')"

subsection \<open>\<^verbatim>\<open>_filter\<close>: the quarantine of undersized pairs\<close>

text \<open>
  \<^verbatim>\<open>run\<close> calls \<^verbatim>\<open>_filter\<close> on two sibling directories of a project's
  products directory: \<^verbatim>\<open>filtered_sequences\<close>, which it lists, and
  \<^verbatim>\<open>zero_files\<close>, into which it moves. The state holds the listing of each:
  the entries of \<^verbatim>\<open>filtered_sequences\<close> in the order \<^verbatim>\<open>listdir\<close> returns them,
  each with its size (\<open>None\<close> when the directory does not exist), and what is at
  the path \<^verbatim>\<open>zero_files\<close>: nothing, a regular file, or a directory. A file of either
  directory is named by its entry name, which stands for the joined path.
\<close>

type_synonym listing = "(string \<times> nat) list"

datatype zero_dir = Missing | RegularFile nat | Directory listing

record outputs =
  filtered :: "listing option"
  zero_files :: zero_dir

text \<open>What a Python function hands back: \<^verbatim>\<open>None\<close> or a list of strings.\<close>

datatype pyval = PyNone | PyList "string list"

text \<open>\<^verbatim>\<open>'_R1_' in entry\<close>\<close>

fun has_R1 :: "string \<Rightarrow> bool" where
  "has_R1 [] = False"
| "has_R1 (c # cs) = (prefix ''_R1_'' (c # cs) \<or> has_R1 cs)"

text \<open>
  \<^verbatim>\<open>entry.replace('_R1_', '_R2_')\<close>: every occurrence, found from left to right,
  the search resuming after each replaced occurrence.
\<close>

fun reverse_entry :: "string \<Rightarrow> string" where
  "reverse_entry (a # b # c # d # rest) =
     (if [a, b, c, d] = ''_R1_'' then ''_R2_'' @ reverse_entry rest
      else a # reverse_entry (b # c # d # rest))"
| "reverse_entry s = s"

text \<open>\<^verbatim>\<open>listdir(filtered_directory)\<close>\<close>

definition listdir :: "outputs \<Rightarrow> error + string list" where
  "listdir st =
     (case filtered st of
        None \<Rightarrow> Inl (FileNotFoundError ''filtered_sequences'')
      | Some d \<Rightarrow> Inr (map fst d))"

text \<open>\<^verbatim>\<open>stat(join(filtered_directory, name)).st_size\<close>\<close>

definition stat_size :: "outputs \<Rightarrow> string \<Rightarrow> error + nat" where
  "stat_size st name =
     (case filtered st of
        None \<Rightarrow> Inl (FileNotFoundError name)
      | Some d \<Rightarrow>
          (case map_of d name of
             None \<Rightarrow> Inl (FileNotFoundError name)
           | Some s \<Rightarrow> Inr s))"

text \<open>
  The first loop. Python's \<^verbatim>\<open>or\<close> does not evaluate its second operand when the
  first holds: the size of the reverse entry is read only when the entry itself
  is larger than the threshold.
\<close>

fun scan :: "outputs \<Rightarrow> int \<Rightarrow> string list \<Rightarrow> string list \<Rightarrow> error + string list" where
  "scan st minimum_bytes [] empty_list = Inr empty_list"
| "scan st minimum_bytes (entry # entries) empty_list =
     (if has_R1 entry then
        (case stat_size st entry of
           Inl e \<Rightarrow> Inl e
         | Inr size1 \<Rightarrow>
             if int size1 \<le> minimum_bytes
             then scan st minimum_bytes entries (empty_list @ [entry, reverse_entry entry])
             else
               (case stat_size st (reverse_entry entry) of
                  Inl e \<Rightarrow> Inl e
                | Inr size2 \<Rightarrow>
                    if int size2 \<le> minimum_bytes
                    then scan st minimum_bytes entries (empty_list @ [entry, reverse_entry entry])
                    else scan st minimum_bytes entries empty_list))
      else scan st minimum_bytes entries empty_list)"

text \<open>\<^verbatim>\<open>makedirs(empty_files_directory, exist_ok=True)\<close>\<close>

definition makedirs :: "outputs \<Rightarrow> error + outputs" where
  "makedirs st =
     (case zero_files st of
        Missing \<Rightarrow> Inr (st\<lparr>zero_files := Directory []\<rparr>)
      | RegularFile s \<Rightarrow> Inl (FileExistsError ''zero_files'')
      | Directory z \<Rightarrow> Inr st)"

text \<open>
  \<^verbatim>\<open>os.rename\<close> of an entry of \<^verbatim>\<open>filtered_sequences\<close>: the entry leaves the
  directory; a missing source raises.
\<close>

definition take_out :: "string \<Rightarrow> outputs \<Rightarrow> error + nat \<times> listing" where
  "take_out item st =
     (case filtered st of
        None \<Rightarrow> Inl (FileNotFoundError item)
      | Some d \<Rightarrow>
          (case map_of d item of
             None \<Rightarrow> Inl (FileNotFoundError item)
           | Some s \<Rightarrow> Inr (s, filter (\<lambda>x. fst x \<noteq> item) d)))"

text \<open>
  \<^verbatim>\<open>shutil.move(item, empty_files_directory)\<close>. When the destination is a
  directory the file goes inside it under its own name, and a file of that name
  already there raises \<^verbatim>\<open>shutil.Error\<close> before anything is touched. Otherwise the
  file is renamed to the destination path itself.
\<close>

definition move :: "string \<Rightarrow> outputs \<Rightarrow> error + outputs" where
  "move item st =
     (case zero_files st of
        Directory z \<Rightarrow>
          if item \<in> fst ` set z then Inl (ShutilError item)
          else (case take_out item st of
                  Inl e \<Rightarrow> Inl e
                | Inr (s, d') \<Rightarrow>
                    Inr (st\<lparr>filtered := Some d', zero_files := Directory (z @ [(item, s)])\<rparr>))
      | _ \<Rightarrow>
          (case take_out item st of
             Inl e \<Rightarrow> Inl e
           | Inr (s, d') \<Rightarrow> Inr (st\<lparr>filtered := Some d', zero_files := RegularFile s\<rparr>)))"

text \<open>The second loop; it stops at the first move that raises.\<close>

fun move_all :: "string list \<Rightarrow> outputs \<Rightarrow> error option \<times> outputs" where
  "move_all [] st = (None, st)"
| "move_all (item # items) st =
     (case move item st of
        Inl e \<Rightarrow> (Some e, st)
      | Inr st' \<Rightarrow> move_all items st')"

text \<open>
  \<^verbatim>\<open>_filter\<close> itself; \<^verbatim>\<open>run\<close> passes \<^verbatim>\<open>self.minimum_bytes\<close>, which
  \<^verbatim>\<open>__init__\<close> sets to 500. The function has no \<^verbatim>\<open>return\<close> statement, so a
  call that does not raise evaluates to \<^verbatim>\<open>None\<close>.
\<close>

definition filter_qc :: "int \<Rightarrow> outputs \<Rightarrow> (error + pyval) \<times> outputs" where
  "filter_qc minimum_bytes st =
     (case listdir st of
        Inl e \<Rightarrow> (Inl e, st)
      | Inr entries \<Rightarrow>
          (case scan st minimum_bytes entries [] of
             Inl e \<Rightarrow> (Inl e, st)
           | Inr empty_list \<Rightarrow>
               (case (if empty_list \<noteq> [] then makedirs st else Inr st) of
                  Inl e \<Rightarrow> (Inl e, st)
                | Inr st1 \<Rightarrow>
                    (case move_all empty_list st1 of
                       (Some e, st2) \<Rightarrow> (Inl e, st2)
                     | (None, st2) \<Rightarrow> (Inr PyNone, st2)))))"

text \<open>Vocabulary for the statements about \<^verbatim>\<open>_filter\<close>.\<close>

definition in_filtered :: "outputs \<Rightarrow> string \<Rightarrow> bool" where
  "in_filtered st name = (case filtered st of None \<Rightarrow> False | Some d \<Rightarrow> name \<in> fst ` set d)"

definition in_zero :: "outputs \<Rightarrow> string \<Rightarrow> bool" where
  "in_zero st name =
     (case zero_files st of Directory z \<Rightarrow> name \<in> fst ` set z | _ \<Rightarrow> False)"

definition undersized :: "outputs \<Rightarrow> int \<Rightarrow> string \<Rightarrow> bool" where
  "undersized st minimum_bytes name =
     (case stat_size st name of Inl e \<Rightarrow> False | Inr s \<Rightarrow> int s \<le> minimum_bytes)"

text \<open>A mate-1 entry whose own size or whose mate's size is at most the threshold.\<close>

definition undersized_pair :: "outputs \<Rightarrow> int \<Rightarrow> string \<Rightarrow> bool" where
  "undersized_pair st minimum_bytes entry =
     (has_R1 entry \<and>
      (undersized st minimum_bytes entry \<or> undersized st minimum_bytes (reverse_entry entry)))"

text \<open>A name that is a member of such a pair of the directory.\<close>

definition in_undersized_pair :: "outputs \<Rightarrow> int \<Rightarrow> string \<Rightarrow> bool" where
  "in_undersized_pair st minimum_bytes name =
     (case filtered st of
        None \<Rightarrow> False
      | Some d \<Rightarrow>
          list_ex (\<lambda>entry. undersized_pair st minimum_bytes entry \<and>
                     (name = entry \<or> name = reverse_entry entry)) (map fst d))"

text \<open>
  No file of the directory belongs to two pairs: the mate of a mate-1 entry is not
  itself a mate-1 entry of the directory, and two mate-1 entries have different
  mates.
\<close>

definition pairs_disjoint :: "outputs \<Rightarrow> bool" where
  "pairs_disjoint st =
     (case filtered st of
        None \<Rightarrow> True
      | Some d \<Rightarrow>
          list_all (\<lambda>e. list_all (\<lambda>e'. has_R1 e \<and> has_R1 e' \<longrightarrow>
                 reverse_entry e \<noteq> e' \<and> (reverse_entry e = reverse_entry e' \<longrightarrow> e = e'))
               (map fst d)) (map fst d))"

subsection \<open>\<^verbatim>\<open>_find_fastq_files\<close>: which files belong to a project\<close>

text \<open>
  What is on disk under a directory: the names of its files and its
  subdirectories, each with what is under it.
\<close>

datatype dirtree = DirTree "string list" "(string \<times> dirtree) list"

text \<open>
  \<^verbatim>\<open>os.walk(root)\<close>, top-down: the triple of the directory itself, then the
  walk of each subdirectory at its joined path.
\<close>

fun walk :: "path \<Rightarrow> dirtree \<Rightarrow> (path \<times> string list \<times> string list) list" where
  "walk root (DirTree file_names dirs) =
     (root, map fst dirs, file_names)
       # concat (map (\<lambda>(name, sub). walk (join root name) sub) dirs)"

text \<open>A walk of a path that does not exist yields nothing.\<close>

definition walk_from :: "path \<Rightarrow> dirtree option \<Rightarrow> (path \<times> string list \<times> string list) list" where
  "walk_from root tree = (case tree of None \<Rightarrow> [] | Some t \<Rightarrow> walk root t)"

text \<open>\<^verbatim>\<open>join(self.run_dir, 'Data', 'Fastq', project_name)\<close>\<close>

definition search_path :: "qcjob \<Rightarrow> string \<Rightarrow> path" where
  "search_path self project_name =
     join (join (join (run_dir self) ''Data'') ''Fastq'') project_name"

text \<open>
  \<^verbatim>\<open>_find_fastq_files_in_run_dir\<close>; \<open>tree\<close> is what is on disk at the search
  path. Each name is joined with the search path, not with the directory in
  which the walk found it.
\<close>

definition find_fastq_files_in_run_dir :: "qcjob \<Rightarrow> string \<Rightarrow> dirtree option \<Rightarrow> path list" where
  "find_fastq_files_in_run_dir self project_name tree =
     concat (map (\<lambda>(root, dirs, file_names).
                    map (\<lambda>some_file. join (search_path self project_name) some_file)
                      (filter (\<lambda>some_file. suffix ''fastq.gz'' some_file) file_names))
               (walk_from (search_path self project_name) tree))"

text \<open>
  \<^verbatim>\<open>os.path.split(p)\<close>: the tail is what follows the last slash, the head what
  precedes it, without its trailing slashes unless it consists of slashes only.
\<close>

definition split_path :: "path \<Rightarrow> path \<times> string" where
  "split_path p =
     (let tail = rev (takeWhile (\<lambda>c. c \<noteq> CHR ''/'') (rev p));
          head = take (length p - length tail) p
      in (if head \<noteq> [] \<and> \<not> list_all (\<lambda>c. c = CHR ''/'') head
          then rev (dropWhile (\<lambda>c. c = CHR ''/'') (rev head)) else head,
          tail))"

text \<open>
  \<^verbatim>\<open>re.match(r'(.*)_R\d_\d\d\d.fastq.gz', file_name)\<close>. After the group the
  pattern is a sequence of one-character items: a literal, a digit (\<^verbatim>\<open>\d\<close>) or
  any character but a newline (the unescaped dot). \<^verbatim>\<open>re.match\<close> anchors the
  match at the start of the name only, and the greedy group takes the longest
  run of characters, none of them a newline, after which the items match.

  This is the matching of ASCII file names, where a character of the name is one
  \<open>char\<close> and the digits that \<^verbatim>\<open>\d\<close> accepts are \<^verbatim>\<open>0\<close> to \<^verbatim>\<open>9\<close>. On
  other names Python matches code points and \<^verbatim>\<open>\d\<close> accepts every Unicode
  decimal digit; the statements about the resolution are for ASCII names.
\<close>

datatype atom = Lit char | Digit | AnyChar

fun atom_matches :: "atom \<Rightarrow> char \<Rightarrow> bool" where
  "atom_matches (Lit l) c = (c = l)"
| "atom_matches Digit c = is_digit c"
| "atom_matches AnyChar c = (c \<noteq> newline)"

fun match_atoms :: "atom list \<Rightarrow> string \<Rightarrow> bool" where
  "match_atoms [] s = True"
| "match_atoms (a # as) [] = False"
| "match_atoms (a # as) (c # cs) = (atom_matches a c \<and> match_atoms as cs)"

fun greedy_group :: "atom list \<Rightarrow> string \<Rightarrow> string option" where
  "greedy_group as [] = (if match_atoms as [] then Some [] else None)"
| "greedy_group as (c # cs) =
     (case (if c \<noteq> newline then greedy_group as cs else None) of
        Some g \<Rightarrow> Some (c # g)
      | None \<Rightarrow> if match_atoms as (c # cs) then Some [] else None)"

definition fastq_atoms :: "atom list" where
  "fastq_atoms =
     [Lit CHR ''_'', Lit CHR ''R'', Digit, Lit CHR ''_'', Digit, Digit, Digit, AnyChar,
      Lit CHR ''f'', Lit CHR ''a'', Lit CHR ''s'', Lit CHR ''t'', Lit CHR ''q'', AnyChar,
      Lit CHR ''g'', Lit CHR ''z'']"

text \<open>The result is \<^verbatim>\<open>m.group(1)\<close> when there is a match.\<close>

definition re_match :: "string \<Rightarrow> string option" where
  "re_match file_name = greedy_group fastq_atoms file_name"

text \<open>The loop of \<^verbatim>\<open>_find_fastq_files\<close> over the files found.\<close>

fun keep_known :: "string list \<Rightarrow> path list \<Rightarrow> path list \<Rightarrow> path list" where
  "keep_known ids [] lst = lst"
| "keep_known ids (some_file # files_found) lst =
     (case split_path some_file of
        (file_path, file_name) \<Rightarrow>
          (case re_match file_name of
             Some sample_id \<Rightarrow>
               if sample_id \<in> set ids
               then keep_known ids files_found (lst @ [some_file])
               else keep_known ids files_found lst
           | None \<Rightarrow> keep_known ids files_found lst))"

definition find_fastq_files :: "qcjob \<Rightarrow> string \<Rightarrow> dirtree option \<Rightarrow> path list" where
  "find_fastq_files self project_name tree =
     (let ids = map fst (filter (\<lambda>c. snd c = project_name) (sample_ids self));
          files_found = find_fastq_files_in_run_dir self project_name tree
      in keep_known ids files_found [])"

text \<open>Vocabulary for the statements about the resolution of FASTQ files.\<close>

text \<open>
  A file name that begins with \<open>sample_id\<close>, then \<^verbatim>\<open>_R\<close>, a digit, \<^verbatim>\<open>_\<close>,
  three digits, any character, \<^verbatim>\<open>fastq\<close>, any character, \<^verbatim>\<open>gz\<close>.
\<close>

definition fastq_name :: "string \<Rightarrow> string \<Rightarrow> bool" where
  "fastq_name sample_id file_name =
     (\<exists>mate i1 i2 i3 dot1 dot2 rest.
        file_name = sample_id @ ''_R'' @ [mate] @ ''_'' @ [i1, i2, i3] @ [dot1] @ ''fastq''
                      @ [dot2] @ ''gz'' @ rest
        \<and> is_digit mate \<and> is_digit i1 \<and> is_digit i2 \<and> is_digit i3
        \<and> dot1 \<noteq> newline \<and> dot2 \<noteq> newline \<and> newline \<notin> set sample_id)"

text \<open>The sample id of a file name: the longest such prefix.\<close>

definition extracted_id :: "string \<Rightarrow> string \<Rightarrow> bool" where
  "extracted_id file_name sample_id =
     (fastq_name sample_id file_name
      \<and> (\<forall>s. fastq_name s file_name \<longrightarrow> length s \<le> length sample_id))"

text \<open>An ASCII character: the eighth bit is not set.\<close>

definition is_ascii :: "char \<Rightarrow> bool" where
  "is_ascii c = (\<not> digit7 c)"

text \<open>
  A file name that is exactly \<open>sample_id\<close>, \<^verbatim>\<open>_R\<close>, a digit, \<^verbatim>\<open>_\<close>, three
  digits and \<^verbatim>\<open>.fastq.gz\<close>; and one that begins with \<open>sample_id\<close>, \<^verbatim>\<open>_R\<close>,
  a digit, \<^verbatim>\<open>_\<close> and three digits.
\<close>

definition exact_fastq_name :: "string \<Rightarrow> string \<Rightarrow> bool" where
  "exact_fastq_name sample_id file_name =
     (\<exists>mate i1 i2 i3.
        file_name = sample_id @ ''_R'' @ [mate] @ ''_'' @ [i1, i2, i3] @ ''.fastq.gz''
        \<and> is_digit mate \<and> is_digit i1 \<and> is_digit i2 \<and> is_digit i3
        \<and> newline \<notin> set sample_id)"

definition begins_as_fastq_name :: "string \<Rightarrow> string \<Rightarrow> bool" where
  "begins_as_fastq_name sample_id file_name =
     (\<exists>mate i1 i2 i3 rest.
        file_name = sample_id @ ''_R'' @ [mate] @ ''_'' @ [i1, i2, i3] @ rest
        \<and> is_digit mate \<and> is_digit i1 \<and> is_digit i2 \<and> is_digit i3)"

text \<open>Names as a file system has them: not empty and without a slash.\<close>

definition valid_name :: "string \<Rightarrow> bool" where
  "valid_name n = (n \<noteq> [] \<and> CHR ''/'' \<notin> set n)"

fun valid_tree :: "dirtree \<Rightarrow> bool" where
  "valid_tree (DirTree file_names dirs) =
     (list_all valid_name file_names
      \<and> list_all (\<lambda>(name, sub). valid_name name \<and> valid_tree sub) dirs)"

definition example_tree :: dirtree where
  "example_tree =
     DirTree [''s1_R1_001.fastq.gz'', ''s1_R2_001.fastq.gz'', ''t1_R1_001.fastq.gz'',
              ''Reports.html'']
       [(''lane2'', DirTree [''s2_R1_001.fastq.gz'', ''s2_R3_001.fastq.gz''] [])]"

subsection \<open>States of the output directories\<close>

text \<open>
  The removal list of the first loop as a comprehension, and some states of a
  project's output directories.
\<close>

definition removal_list :: "outputs \<Rightarrow> int \<Rightarrow> string list \<Rightarrow> string list" where
  "removal_list st m es =
     concat (map (\<lambda>e. [e, reverse_entry e]) (filter (undersized_pair st m) es))"

definition example_outputs :: outputs where
  "example_outputs =
     \<lparr>filtered = Some [(''s1_R1_001.fastq.gz'', 400), (''s1_R2_001.fastq.gz'', 10000),
                       (''s2_R1_001.fastq.gz'', 5000), (''s2_R2_001.fastq.gz'', 5000)],
      zero_files = Missing\<rparr>"

definition rerun_outputs :: outputs where
  "rerun_outputs =
     \<lparr>filtered = Some [(''s1_R1_001.fastq.gz'', 400), (''s1_R2_001.fastq.gz'', 10000)],
      zero_files = Directory [(''s1_R1_001.fastq.gz'', 0)]\<rparr>"

definition shared_mate_outputs :: outputs where
  "shared_mate_outputs =
     \<lparr>filtered = Some [(''a_R1_b_R1_001.fastq.gz'', 5000), (''a_R1_b_R2_001.fastq.gz'', 100),
                       (''a_R2_b_R2_001.fastq.gz'', 5000)],
      zero_files = Missing\<rparr>"

definition crossed_outputs :: outputs where
  "crossed_outputs =
     \<lparr>filtered = Some [(''a_R1_R1_b'', 100), (''a_R2_R1_b'', 5000), (''a_R2_R2_b'', 5000),
                       (''a_R1_R2_b'', 100)],
      zero_files = Missing\<rparr>"

definition orphan_outputs :: outputs where
  "orphan_outputs = \<lparr>filtered = Some [(''s1_R1_001.fastq.gz'', 100)], zero_files = Missing\<rparr>"

section \<open>Properties of the generated script\<close>

lemmas example_generate_defs =
  generate_job_script_def write_file_def example_job_def example_paths_def example_disk_def
  sh_details_fp_def join_def

subsection \<open>Decimal rendering\<close>

lemma digit_char_neq_minus: "d < 10 \<Longrightarrow> digit_char d \<noteq> CHR ''-''"
proof -
  assume "d < 10"
  then have "d \<in> {0, 1, 2, 3, 4, 5, 6, 7, 8, 9}" by auto
  then show ?thesis by (auto simp: digit_char_def)
qed

lemma digit_char_inj: "d < 10 \<Longrightarrow> e < 10 \<Longrightarrow> digit_char d = digit_char e \<Longrightarrow> d = e"
proof -
  assume "d < 10" "e < 10" and eq: "digit_char d = digit_char e"
  then have "d \<in> {0, 1, 2, 3, 4, 5, 6, 7, 8, 9}" "e \<in> {0, 1, 2, 3, 4, 5, 6, 7, 8, 9}"
    by auto
  with eq show ?thesis by (auto simp: digit_char_def)
qed

lemma str_nat_nonempty: "str_nat n \<noteq> []"
  by (subst str_nat.simps) simp

lemma str_nat_hd: "hd (str_nat n) \<noteq> CHR ''-''"
proof (induction n rule: str_nat.induct)
  case (1 n)
  show ?case
  proof (cases "n < 10")
    case True
    then show ?thesis by (subst str_nat.simps) (simp add: digit_char_neq_minus)
  next
    case False
    with 1 show ?thesis by (subst str_nat.simps) (simp add: str_nat_nonempty)
  qed
qed

lemma str_nat_inj: "str_nat n = str_nat m \<Longrightarrow> n = m"
proof (induction n arbitrary: m rule: str_nat.induct)
  case (1 n)
  show ?case
  proof (cases "n < 10")
    case n: True
    show ?thesis
    proof (cases "m < 10")
      case True
      with n "1.prems" show ?thesis
        by (simp add: str_nat.simps [of n] str_nat.simps [of m] digit_char_inj)
    next
      case False
      with n "1.prems" show ?thesis
        using str_nat_nonempty [of "m div 10"]
        by (auto simp: str_nat.simps [of n] str_nat.simps [of m])
    qed
  next
    case n: False
    show ?thesis
    proof (cases "m < 10")
      case True
      with n "1.prems" show ?thesis
        using str_nat_nonempty [of "n div 10"]
        by (auto simp: str_nat.simps [of n] str_nat.simps [of m])
    next
      case False
      with n "1.prems" have a: "str_nat (n div 10) = str_nat (m div 10)"
        and b: "digit_char (n mod 10) = digit_char (m mod 10)"
        by (simp_all add: str_nat.simps [of n] str_nat.simps [of m])
      from "1.IH" [OF n a] have "n div 10 = m div 10" .
      moreover from b have "n mod 10 = m mod 10" by (simp add: digit_char_inj)
      ultimately show ?thesis by (metis div_mult_mod_eq)
    qed
  qed
qed

lemma str_int_inj: "str_int i = str_int j \<Longrightarrow> i = j"
proof -
  assume eq: "str_int i = str_int j"
  have neg: "hd (str_int k) = CHR ''-'' \<longleftrightarrow> k < 0" for k
    using str_nat_hd [of "nat k"] by (simp add: str_int_def)
  from eq have "i < 0 \<longleftrightarrow> j < 0" using neg by metis
  with eq show ?thesis
    by (auto simp: str_int_def dest!: str_nat_inj)
qed

lemma array_directive_inj: "array_directive n p = array_directive n q \<Longrightarrow> p = q"
  by (simp add: array_directive_def str_int_inj)

subsection \<open>Outcome of the two writes\<close>

lemma generate_job_script_success:
  assumes "fst (generate_job_script self project_name (sp, olp, elp) cmds d) = Inr p"
  shows "generate_job_script self project_name (sp, olp, elp) cmds d =
           (Inr sp,
            d\<lparr>files := (files d)
                 (sp \<mapsto> str_join [newline] (script_lines self project_name olp elp cmds),
                  sh_details_fp self project_name \<mapsto> str_join [newline] cmds),
              written := written d @ [sp, sh_details_fp self project_name]\<rparr>)"
  using assms
  by (auto simp: generate_job_script_def write_file_def Let_def split: if_splits)

lemma generate_job_script_writable:
  assumes "sp \<notin> unwritable d" "sh_details_fp self project_name \<notin> unwritable d"
  shows "fst (generate_job_script self project_name (sp, olp, elp) cmds d) = Inr sp"
  using assms by (simp add: generate_job_script_def write_file_def Let_def)

lemma script_lines_nth_9:
  "script_lines self project_name olp elp cmds ! 9 = array_directive (length cmds) (pool_size self)"
  by (simp add: script_lines_def)

lemma split_acc_no_newline:
  "newline \<notin> set c \<Longrightarrow> split_acc cur (c @ rest) = split_acc (cur @ c) rest"
  by (induction c arbitrary: cur) auto

lemma split_acc_line:
  "newline \<notin> set c \<Longrightarrow> split_acc cur (c @ newline # rest) = (cur @ c) # split_acc [] rest"
  by (simp add: split_acc_no_newline)

lemma text_lines_str_join:
  "cmds \<noteq> [] \<Longrightarrow> \<forall>c\<in>set cmds. newline \<notin> set c \<Longrightarrow> last cmds \<noteq> [] \<Longrightarrow>
     text_lines (str_join [newline] cmds) = cmds"
proof (induction "[newline]" cmds rule: str_join.induct)
  case 1
  then show ?case by simp
next
  case (2 x)
  then show ?case
    using split_acc_no_newline [of x "[]" "[]"] by (simp add: text_lines_def)
next
  case (3 x y ys)
  then show ?case
    using split_acc_line [of x "[]" "str_join [newline] (y # ys)"]
    by (simp add: text_lines_def)
qed

subsection \<open>The array directive\<close>

text \<open>
  C1 (as the code has it). For every command table of length \<open>N\<close> and every pool
  size \<open>P\<close>, the tenth line of the script is the directive \<^verbatim>\<open>#PBS -t 1-N%P\<close>:
  the array range is \<open>1..N\<close> and the concurrency cap is \<open>P\<close> as configured. No
  minimum is taken: the directive is the one with cap \<open>min P N\<close> exactly when
  \<open>P \<le> N\<close>.
\<close>

theorem array_directive_cap_is_pool_size:
  "script_lines self project_name olp elp cmds ! 9 =
     ''#PBS -t 1-'' @ str_int (int (length cmds)) @ ''%'' @ str_int (pool_size self)
   \<and> ((script_lines self project_name olp elp cmds ! 9 =
         array_directive (length cmds) (min (pool_size self) (int (length cmds))))
        = (pool_size self \<le> int (length cmds)))"
proof -
  have a: "script_lines self project_name olp elp cmds ! 9 =
      array_directive (length cmds) (pool_size self)"
    by (rule script_lines_nth_9)
  have b: "(array_directive (length cmds) (pool_size self) =
         array_directive (length cmds) (min (pool_size self) (int (length cmds))))
        = (pool_size self \<le> int (length cmds))"
    using array_directive_inj [of "length cmds" "pool_size self"
        "min (pool_size self) (int (length cmds))"]
    by (auto simp: min_def)
  show ?thesis unfolding a using b by (simp add: array_directive_def)
qed

text \<open>
  With two commands and a pool size of five the script declares a cap of five,
  not the two that the minimum would give.
\<close>

theorem cap_exceeds_task_count_counterexample:
  "script_lines example_job ''ProjectA'' ''/run/QCJob_1.out.log'' ''/run/QCJob_1.err.log''
      [''cmd_a'', ''cmd_b''] ! 9 = ''#PBS -t 1-2%5''
   \<and> min (pool_size example_job) (int (length [''cmd_a'', ''cmd_b''])) = 2
   \<and> ''#PBS -t 1-2%5'' \<noteq> array_directive 2 2"
  by (simp add: script_lines_def example_job_def array_directive_def str_int_def
      str_nat.simps digit_char_def)

subsection \<open>An empty command table\<close>

text \<open>
  C2 (as the code has it). There is no check of the length of the command table:
  for a table of length 0, whenever the two files can be opened, generation
  returns the path of the script, having written a script whose array directive
  is \<^verbatim>\<open>#PBS -t 1-0%P\<close> and an empty command table.
\<close>

theorem empty_table_generates_script:
  assumes "sp \<notin> unwritable d" "sh_details_fp self project_name \<notin> unwritable d"
  shows "generate_job_script self project_name (sp, olp, elp) [] d =
           (Inr sp,
            d\<lparr>files := (files d)
                 (sp \<mapsto> str_join [newline] (script_lines self project_name olp elp []),
                  sh_details_fp self project_name \<mapsto> []),
              written := written d @ [sp, sh_details_fp self project_name]\<rparr>)
         \<and> script_lines self project_name olp elp [] ! 9 =
             ''#PBS -t 1-0%'' @ str_int (pool_size self)"
proof -
  from assms have "fst (generate_job_script self project_name (sp, olp, elp) [] d) = Inr sp"
    by (rule generate_job_script_writable)
  from generate_job_script_success [OF this] show ?thesis
    by (simp add: script_lines_nth_9 array_directive_def str_int_def str_nat.simps
        digit_char_def)
qed

theorem empty_table_generates_script_witness:
  "generate_job_script example_job ''ProjectA'' example_paths [] example_disk =
     (Inr ''/run/QCJob_1.sh'',
      \<lparr>files = [''/run/QCJob_1.sh'' \<mapsto> str_join [newline]
           (script_lines example_job ''ProjectA'' ''/run/QCJob_1.out.log''
              ''/run/QCJob_1.err.log'' []),
         ''/run/split_file_ProjectA.array-details'' \<mapsto> []],
       unwritable = {},
       written = [''/run/QCJob_1.sh'', ''/run/split_file_ProjectA.array-details'']\<rparr>)
   \<and> script_lines example_job ''ProjectA'' ''/run/QCJob_1.out.log'' ''/run/QCJob_1.err.log''
        [] ! 9 = ''#PBS -t 1-0%5''"
  using empty_table_generates_script [of "''/run/QCJob_1.sh''" example_disk example_job
      "''ProjectA''" "''/run/QCJob_1.out.log''" "''/run/QCJob_1.err.log''"]
  by (simp add: example_paths_def example_disk_def sh_details_fp_def join_def example_job_def
      str_int_def str_nat.simps digit_char_def)

text \<open>On an empty table the call returns a path and the script file exists.\<close>

theorem empty_table_counterexample:
  "fst (generate_job_script example_job ''ProjectA'' example_paths [] example_disk)
     = Inr ''/run/QCJob_1.sh''
   \<and> files (snd (generate_job_script example_job ''ProjectA'' example_paths [] example_disk))
       ''/run/QCJob_1.sh'' \<noteq> None"
  by (simp add: example_generate_defs)

subsection \<open>The order of the two writes\<close>

text \<open>
  C6 (as the code has it). Whenever generation returns, the job script has been
  written and closed first and the command table second, and the complete
  command table is on disk when the path of the script is returned.
\<close>

theorem script_written_before_table:
  assumes "fst (generate_job_script self project_name (sp, olp, elp) cmds d) = Inr p"
  shows "p = sp
    \<and> written (snd (generate_job_script self project_name (sp, olp, elp) cmds d)) =
        written d @ [sp, sh_details_fp self project_name]
    \<and> files (snd (generate_job_script self project_name (sp, olp, elp) cmds d))
        (sh_details_fp self project_name) = Some (str_join [newline] cmds)"
  using assms generate_job_script_success [OF assms] by simp

theorem script_written_before_table_witness:
  "fst (generate_job_script example_job ''ProjectA'' example_paths [''cmd_a'', ''cmd_b'']
      example_disk) = Inr ''/run/QCJob_1.sh''
   \<and> written (snd (generate_job_script example_job ''ProjectA'' example_paths
        [''cmd_a'', ''cmd_b''] example_disk)) =
        [''/run/QCJob_1.sh'', ''/run/split_file_ProjectA.array-details'']
   \<and> files (snd (generate_job_script example_job ''ProjectA'' example_paths
        [''cmd_a'', ''cmd_b''] example_disk)) ''/run/split_file_ProjectA.array-details''
       = Some (''cmd_a'' @ [newline] @ ''cmd_b'')"
proof -
  have ok: "fst (generate_job_script example_job ''ProjectA''
      (''/run/QCJob_1.sh'', ''/run/QCJob_1.out.log'', ''/run/QCJob_1.err.log'')
      [''cmd_a'', ''cmd_b''] example_disk) = Inr ''/run/QCJob_1.sh''"
    by (simp add: example_generate_defs)
  from script_written_before_table [OF ok] ok show ?thesis
    by (simp add: example_paths_def example_disk_def sh_details_fp_def join_def
        example_job_def)
qed

text \<open>The log of a run: the script comes first, the table after it.\<close>

theorem table_before_script_counterexample:
  "written (snd (generate_job_script example_job ''ProjectA'' example_paths
      [''cmd_a'', ''cmd_b''] example_disk))
     = [''/run/QCJob_1.sh'', ''/run/split_file_ProjectA.array-details'']
   \<and> written (snd (generate_job_script example_job ''ProjectA'' example_paths
      [''cmd_a'', ''cmd_b''] example_disk))
     \<noteq> [''/run/split_file_ProjectA.array-details'', ''/run/QCJob_1.sh'']"
  by (simp add: example_generate_defs)

subsection \<open>Numbers as the shell reads them\<close>

lemma digit_char_props:
  assumes "d < 10"
  shows "digit_val (digit_char d) = d" "is_digit (digit_char d)" "digit_char d \<noteq> newline"
    "digit_char d = CHR ''0'' \<longleftrightarrow> d = 0"
proof -
  from assms have "d \<in> {0, 1, 2, 3, 4, 5, 6, 7, 8, 9}" by auto
  then show "digit_val (digit_char d) = d" "is_digit (digit_char d)" "digit_char d \<noteq> newline"
    "digit_char d = CHR ''0'' \<longleftrightarrow> d = 0"
    by (auto simp: digit_char_def digit_val_def is_digit_def newline_def)
qed

lemma str_nat_digits: "list_all is_digit (str_nat n)"
proof (induction n rule: str_nat.induct)
  case (1 n)
  then show ?case
    by (subst str_nat.simps) (auto simp: digit_char_props)
qed

lemma str_nat_single_line: "newline \<notin> set (str_nat n)"
proof (induction n rule: str_nat.induct)
  case (1 n)
  then show ?case
    using digit_char_props(3) [of n] digit_char_props(3) [of "n mod 10"]
    by (subst str_nat.simps) auto
qed

lemma str_int_single_line: "newline \<notin> set (str_int i)"
  using str_nat_single_line [of "nat i"] str_nat_single_line [of "nat (- i)"]
  by (auto simp: str_int_def newline_def)

lemma str_nat_leading_zero: "hd (str_nat n) = CHR ''0'' \<Longrightarrow> length (str_nat n) = 1"
proof (induction n rule: str_nat.induct)
  case (1 n)
  show ?case
  proof (cases "n < 10")
    case True
    then show ?thesis by (subst str_nat.simps) simp
  next
    case False
    with "1.prems" have "hd (str_nat (n div 10)) = CHR ''0''"
      by (subst (asm) str_nat.simps) (simp add: str_nat_nonempty)
    from "1.IH" [OF False this] have one: "length (str_nat (n div 10)) = 1" .
    have "n div 10 < 10"
    proof (rule ccontr)
      assume "\<not> n div 10 < 10"
      then have "length (str_nat (n div 10)) \<ge> 2"
        using str_nat_nonempty [of "n div 10 div 10"]
        by (subst str_nat.simps) (simp add: Suc_le_eq)
      with one show False by simp
    qed
    with \<open>hd (str_nat (n div 10)) = CHR ''0''\<close> have "n div 10 = 0"
      by (subst (asm) str_nat.simps) (simp add: digit_char_props)
    with False show ?thesis by simp
  qed
qed

lemma str_nat_value: "foldl (\<lambda>a c. 10 * a + digit_val c) 0 (str_nat n) = n"
proof (induction n rule: str_nat.induct)
  case (1 n)
  show ?case
  proof (cases "n < 10")
    case True
    then show ?thesis by (subst str_nat.simps) (simp add: digit_char_props)
  next
    case False
    with "1.IH" show ?thesis
      by (subst str_nat.simps) (simp add: digit_char_props)
  qed
qed

lemma read_nat_str_nat: "read_nat (str_nat n) = Some n"
  using str_nat_leading_zero [of n]
  by (auto simp: read_nat_def str_nat_nonempty str_nat_digits str_nat_value)

subsection \<open>Reading the lines of the script\<close>

lemma strip_prefix_append: "strip_prefix p (p @ s) = Some s"
  by (simp add: strip_prefix_def)

lemma strip_suffix_append: "strip_suffix x (s @ x) = Some s"
  by (simp add: strip_suffix_def suffix_def)

lemma parse_comment: "parse_line (CHR ''#'' # s) = Some NoOp"
  by (simp add: parse_line_def no_effect_def)

lemma parse_fixed:
  "parse_line ''set -x'' = Some NoOp"
  "parse_line ''date'' = Some NoOp"
  "parse_line ''hostname'' = Some NoOp"
  "parse_line ''echo ${PBS_JOBID} ${PBS_ARRAYID}'' = Some NoOp"
  by (simp_all add: parse_line_def no_effect_def)

lemma parse_cd: "is_word w \<Longrightarrow> parse_line (''cd '' @ w) = Some (Cd w)"
  by (simp add: parse_line_def no_effect_def strip_prefix_def)

lemma str_join_words:
  "list_all is_word ms \<Longrightarrow> list_all (\<lambda>c. word_char c \<or> c = CHR '' '') (str_join '' '' ms)"
  by (induction "'' ''" ms rule: str_join.induct) (auto simp: is_word_def list_all_iff)

lemma parse_module:
  "list_all is_word ms \<Longrightarrow> parse_line (''module load '' @ str_join '' '' ms) = Some NoOp"
  using str_join_words [of ms] strip_prefix_append [of "''module load ''" "str_join '' '' ms"]
  by (simp add: parse_line_def no_effect_def del: append.simps)

lemma parse_offset: "parse_line ''offset=${PBS_ARRAYID}'' = Some (Assign ''offset'' (Param ''PBS_ARRAYID''))"
  by (simp add: parse_line_def no_effect_def strip_prefix_def strip_suffix_def parse_word_def
      is_name_def name_char_def is_digit_def suffix_to_prefix)

lemma parse_step: "parse_line ''step=$(( $offset - 0 ))'' = Some (Assign ''step'' (Arith ''offset'' 0))"
  by (simp add: parse_line_def no_effect_def strip_prefix_def strip_suffix_def parse_word_def
      is_name_def name_char_def is_digit_def suffix_to_prefix read_nat_def digit_val_def)

lemma parse_eval: "parse_line ''eval $cmd0'' = Some (Eval ''cmd0'')"
  by (simp add: parse_line_def no_effect_def strip_prefix_def is_name_def name_char_def
      is_digit_def)

lemma parse_head_tail:
  assumes "is_word table"
  shows "parse_word (''$(head -n $step '' @ table @ '' | tail -n 1)'')
           = Some (HeadTail ''step'' table)"
proof -
  have a: "strip_prefix ''$(head -n $'' (''$(head -n $step '' @ table @ '' | tail -n 1)'')
      = Some (''step '' @ table @ '' | tail -n 1)'')"
    by (simp add: strip_prefix_def)
  have b: "strip_suffix '' | tail -n 1)'' (''step '' @ table @ '' | tail -n 1)'')
      = Some (''step '' @ table)"
    using strip_suffix_append [of "'' | tail -n 1)''" "''step '' @ table"] by simp
  have c: "split_on '' '' [] (''step '' @ table) = Some (''step'', table)"
    by simp
  have d: "is_name ''step''"
    by (simp add: is_name_def name_char_def is_digit_def)
  have e: "strip_prefix ''${'' (''$(head -n $step '' @ table @ '' | tail -n 1)'') = None"
    "strip_prefix ''$(( $'' (''$(head -n $step '' @ table @ '' | tail -n 1)'') = None"
    by (simp_all add: strip_prefix_def)
  show ?thesis
    unfolding parse_word_def e a by (simp add: b c d assms del: append.simps split_on.simps)
qed

lemma parse_cmd0:
  assumes "is_word table"
  shows "parse_line (''cmd0=$(head -n $step '' @ table @ '' | tail -n 1)'')
           = Some (Assign ''cmd0'' (HeadTail ''step'' table))"
proof -
  let ?l = "''cmd0=$(head -n $step '' @ table @ '' | tail -n 1)''"
  have a: "\<not> no_effect ?l"
    by (simp add: no_effect_def strip_prefix_def)
  have b: "strip_prefix ''cd '' ?l = None" "strip_prefix ''eval $'' ?l = None"
    by (simp_all add: strip_prefix_def)
  have c: "split_on ''='' [] ?l = Some (''cmd0'', ''$(head -n $step '' @ table @ '' | tail -n 1)'')"
    by simp
  have d: "is_name ''cmd0''"
    by (simp add: is_name_def name_char_def is_digit_def)
  show ?thesis
    unfolding parse_line_def
    by (simp add: a b c d parse_head_tail [OF assms] del: append.simps split_on.simps)
qed

subsection \<open>Running the script\<close>

lemma word_char_not_newline: "word_char c \<Longrightarrow> c \<noteq> newline"
  by (auto simp: word_char_def name_char_def newline_def)

lemma is_word_single_line: "is_word w \<Longrightarrow> single_line w"
  using word_char_not_newline by (auto simp: is_word_def single_line_def list_all_iff)

lemma str_join_single_line:
  "list_all is_word ms \<Longrightarrow> single_line (str_join '' '' ms)"
  using str_join_words [of ms] word_char_not_newline
  by (auto simp: single_line_def list_all_iff newline_def)

lemma script_lines_single_line:
  assumes "well_formed_script self project_name olp elp"
  shows "\<forall>l\<in>set (script_lines self project_name olp elp cmds). newline \<notin> set l"
proof -
  from assms have w: "single_line (qiita_job_id self)" "single_line project_name"
    "single_line (queue_name self)" "single_line (jmem self)" "single_line olp" "single_line elp"
    "single_line (run_dir self)" "single_line (sh_details_fp self project_name)"
    "single_line (str_join '' '' (modules_to_load self))"
    by (simp_all add: well_formed_script_def is_word_single_line str_join_single_line)
  have n: "single_line (str_int i)" for i
    by (simp add: single_line_def str_int_single_line)
  have lit: "CHR ''#'' \<noteq> newline" by (simp add: newline_def)
  from w n [of "node_count self"] n [of "nprocs self"] n [of "wall_time_limit self"]
    n [of "int (length cmds)"] n [of "pool_size self"]
  show ?thesis
    unfolding script_lines_def task_body_def array_directive_def single_line_def
    by (simp add: newline_def)
qed

lemma script_lines_last:
  "script_lines self project_name olp elp cmds \<noteq> []"
  "last (script_lines self project_name olp elp cmds) \<noteq> []"
  by (simp_all add: script_lines_def task_body_def)

lemma script_text_lines:
  assumes "well_formed_script self project_name olp elp"
  shows "text_lines (str_join [newline] (script_lines self project_name olp elp cmds))
           = script_lines self project_name olp elp cmds"
  by (rule text_lines_str_join [OF script_lines_last(1) script_lines_single_line [OF assms]
        script_lines_last(2)])

lemma run_lines_append:
  "run_lines fs (xs @ ys) t =
     (case run_lines fs xs t of None \<Rightarrow> None | Some t' \<Rightarrow> run_lines fs ys t')"
  by (induction xs arbitrary: t) (auto split: option.splits)

lemma run_preamble:
  assumes "well_formed_script self project_name olp elp"
  shows "run_lines fs (script_lines self project_name olp elp cmds) t =
           run_lines fs (task_body (sh_details_fp self project_name))
             (t\<lparr>cwd := join (cwd t) (run_dir self)\<rparr>)"
proof -
  from assms have rd: "is_word (run_dir self)" and ms: "list_all is_word (modules_to_load self)"
    by (simp_all add: well_formed_script_def)
  show ?thesis
    unfolding script_lines_def array_directive_def
    by (simp add: run_lines_append parse_comment parse_fixed parse_cd [OF rd, simplified]
        parse_module [OF ms, simplified] exec_def)
qed

lemma run_task_body:
  assumes "is_word table" "vars t ''PBS_ARRAYID'' = Some (str_nat i)"
  shows "run_lines fs (task_body table) t =
           Some (t\<lparr>vars := (vars t)
                    (''offset'' \<mapsto> str_nat i, ''step'' \<mapsto> str_nat i,
                     ''cmd0'' \<mapsto> tail_1 (head_n i (text_lines (read_file fs (join (cwd t) table))))),
                  evaluated := evaluated t
                    @ [tail_1 (head_n i (text_lines (read_file fs (join (cwd t) table))))]\<rparr>)"
  using assms(2)
  unfolding task_body_def
  by (simp add: parse_offset parse_step parse_eval parse_cmd0 [OF assms(1), simplified]
      exec_def word_value_def expand_def read_nat_str_nat)

lemma selected_line:
  assumes "1 \<le> i" "i \<le> length cmds"
  shows "tail_1 (head_n i cmds) = cmds ! (i - 1)"
proof -
  from assms have ne: "take i cmds \<noteq> []" by auto
  from assms have "length (take i cmds) = i" by simp
  with ne have "last (take i cmds) = take i cmds ! (i - 1)"
    by (simp add: last_conv_nth)
  also have "\<dots> = cmds ! (i - 1)" using assms by simp
  finally show ?thesis using ne by (simp add: tail_1_def head_n_def)
qed

lemma absolute_table:
  assumes "is_word (run_dir self)" "hd (run_dir self) = CHR ''/''"
  shows "join a (sh_details_fp self project_name) = sh_details_fp self project_name"
proof -
  from assms have "run_dir self \<noteq> []" by (simp add: is_word_def)
  with assms(2) have "sh_details_fp self project_name \<noteq> []
      \<and> hd (sh_details_fp self project_name) = CHR ''/''"
    by (auto simp: sh_details_fp_def join_def)
  then show ?thesis by (simp add: join_def)
qed

subsection \<open>Task index and table line\<close>

text \<open>
  C7 (as the code has it). For every command list of length \<open>N\<close> whose commands
  contain no line break and whose last command is not the empty string, and every
  \<open>i\<close> with \<open>1 \<le> i \<le> N\<close>: the command table on disk is the commands joined by
  newlines, it has \<open>N\<close> lines and its \<open>i\<close>-th line is the \<open>i\<close>-th command. And
  when the run directory is an absolute path, the job settings are plain (no
  line break in a directive; run directory, table path and module names without
  characters that the shell expands or splits) and the script is not written to
  the path of the table: the script that is on disk, run as the task with array
  index \<open>i\<close> from any directory, hands exactly the \<open>i\<close>-th command to
  \<^verbatim>\<open>eval\<close>, and nothing else.
\<close>

theorem task_reads_its_own_command:
  assumes ok: "fst (generate_job_script self project_name (sp, olp, elp) cmds d) = Inr p"
    and nl: "\<forall>c\<in>set cmds. newline \<notin> set c"
    and last: "last cmds \<noteq> []"
    and i: "1 \<le> i" "i \<le> length cmds"
  shows "files (snd (generate_job_script self project_name (sp, olp, elp) cmds d))
            (sh_details_fp self project_name) = Some (str_join [newline] cmds)
    \<and> length (text_lines (str_join [newline] cmds)) = length cmds
    \<and> text_lines (str_join [newline] cmds) ! (i - 1) = cmds ! (i - 1)
    \<and> (well_formed_script self project_name olp elp \<and> sp \<noteq> sh_details_fp self project_name
        \<longrightarrow> map_option evaluated
              (run_task (files (snd (generate_job_script self project_name (sp, olp, elp) cmds d)))
                 sp start_dir i) = Some [cmds ! (i - 1)])"
proof -
  let ?table = "sh_details_fp self project_name"
  let ?d' = "snd (generate_job_script self project_name (sp, olp, elp) cmds d)"
  from i have ne: "cmds \<noteq> []" by auto
  have tl: "text_lines (str_join [newline] cmds) = cmds"
    using ne nl last by (rule text_lines_str_join)
  from generate_job_script_success [OF ok]
  have tab: "files ?d' ?table = Some (str_join [newline] cmds)"
    and scr: "sp \<noteq> ?table \<Longrightarrow>
      files ?d' sp = Some (str_join [newline] (script_lines self project_name olp elp cmds))"
    by simp_all
  have run: "map_option evaluated (run_task (files ?d') sp start_dir i) = Some [cmds ! (i - 1)]"
    if wf: "well_formed_script self project_name olp elp" and ne: "sp \<noteq> ?table"
  proof -
    from wf have w: "is_word (run_dir self)" "hd (run_dir self) = CHR ''/''" "is_word ?table"
      by (simp_all add: well_formed_script_def)
    let ?t0 = "\<lparr>cwd = start_dir, vars = [''PBS_ARRAYID'' \<mapsto> str_nat i], evaluated = []\<rparr>"
    let ?t1 = "?t0\<lparr>cwd := join (cwd ?t0) (run_dir self)\<rparr>"
    have rf: "read_file (files ?d') (join (cwd ?t1) ?table) = str_join [newline] cmds"
      using absolute_table [OF w(1,2)] tab by (simp add: read_file_def)
    have "run_task (files ?d') sp start_dir i
        = run_lines (files ?d') (script_lines self project_name olp elp cmds) ?t0"
      using scr [OF ne] script_text_lines [OF wf] by (simp add: run_task_def)
    also have "\<dots> = run_lines (files ?d') (task_body ?table) ?t1"
      by (rule run_preamble [OF wf])
    finally show ?thesis
      using run_task_body [OF w(3), of ?t1 i "files ?d'"] rf tl selected_line [OF i]
      by simp
  qed
  from tab tl run show ?thesis by simp
qed

lemma example_well_formed:
  "well_formed_script example_job ''ProjectA'' ''/run/QCJob_1.out.log'' ''/run/QCJob_1.err.log''"
  by (simp add: well_formed_script_def single_line_def is_word_def word_char_def name_char_def
      newline_def example_job_def sh_details_fp_def join_def)

theorem task_reads_its_own_command_witness:
  "files (snd (generate_job_script example_job ''ProjectA'' example_paths
       [''cmd_a'', ''cmd_b''] example_disk)) ''/run/split_file_ProjectA.array-details''
      = Some (''cmd_a'' @ [newline] @ ''cmd_b'')
   \<and> text_lines (''cmd_a'' @ [newline] @ ''cmd_b'') ! 1 = ''cmd_b''
   \<and> map_option evaluated
        (run_task (files (snd (generate_job_script example_job ''ProjectA'' example_paths
             [''cmd_a'', ''cmd_b''] example_disk))) ''/run/QCJob_1.sh'' ''/home/user'' 2)
      = Some [''cmd_b'']"
proof -
  have ok: "fst (generate_job_script example_job ''ProjectA''
      (''/run/QCJob_1.sh'', ''/run/QCJob_1.out.log'', ''/run/QCJob_1.err.log'')
      [''cmd_a'', ''cmd_b''] example_disk) = Inr ''/run/QCJob_1.sh''"
    by (simp add: example_generate_defs)
  have nl: "\<forall>c\<in>set [''cmd_a'', ''cmd_b'']. newline \<notin> set c"
    by (simp add: newline_def)
  have last: "last [''cmd_a'', ''cmd_b''] \<noteq> []" by simp
  have i: "(1::nat) \<le> 2" "2 \<le> length [''cmd_a'', ''cmd_b'']" by simp_all
  have ne: "''/run/QCJob_1.sh'' \<noteq> sh_details_fp example_job ''ProjectA''"
    by (simp add: sh_details_fp_def join_def example_job_def)
  from task_reads_its_own_command [OF ok nl last i, of "''/home/user''"] example_well_formed ne
  show ?thesis
    by (simp add: example_paths_def sh_details_fp_def join_def example_job_def)
qed

text \<open>
  A command with a line break in it takes two lines of the table: the second
  line, which the second task runs, is not the second command. And with a
  relative run directory the task changes into that directory and then looks
  for the table under the same relative path again: it finds no file and runs
  the empty text.
\<close>

theorem task_selects_other_line_counterexample:
  "files (snd (generate_job_script example_job ''ProjectA'' example_paths
       [''a'' @ [newline] @ ''b'', ''c''] example_disk)) ''/run/split_file_ProjectA.array-details''
     = Some (''a'' @ [newline] @ ''b'' @ [newline] @ ''c'')
   \<and> text_lines (''a'' @ [newline] @ ''b'' @ [newline] @ ''c'') ! (2 - 1) = ''b''
   \<and> map_option evaluated
        (run_task (files (snd (generate_job_script example_job ''ProjectA'' example_paths
             [''a'' @ [newline] @ ''b'', ''c''] example_disk))) ''/run/QCJob_1.sh'' ''/home/user'' 2)
      = Some [''b'']
   \<and> [''a'' @ [newline] @ ''b'', ''c''] ! (2 - 1) = ''c''
   \<and> map_option evaluated
        (run_task (files (snd (generate_job_script relative_job ''ProjectA'' relative_paths
             [''cmd_a'', ''cmd_b''] example_disk))) ''data/run/QCJob_1.sh'' [] 2)
      = Some [[]]
   \<and> [''cmd_a'', ''cmd_b''] ! (2 - 1) = ''cmd_b''"
  by code_simp

section \<open>Properties of the quarantine\<close>

subsection \<open>The scan\<close>

lemma stat_size_error: "stat_size st n = Inl x \<Longrightarrow> x = FileNotFoundError n"
  by (auto simp: stat_size_def split: option.splits)

lemma scan_success:
  "scan st m es acc = Inr L \<Longrightarrow> L = acc @ removal_list st m es"
proof (induction es arbitrary: acc)
  case Nil
  then show ?case by (simp add: removal_list_def)
next
  case (Cons e es)
  show ?case
  proof (cases "has_R1 e")
    case False
    with Cons.prems have "scan st m es acc = Inr L" by simp
    from Cons.IH [OF this] False show ?thesis
      by (simp add: removal_list_def undersized_pair_def)
  next
    case r1: True
    from Cons.prems r1 obtain s1 where s1: "stat_size st e = Inr s1"
      by (auto split: sum.splits)
    show ?thesis
    proof (cases "int s1 \<le> m")
      case True
      with Cons.prems r1 s1 have "scan st m es (acc @ [e, reverse_entry e]) = Inr L" by simp
      from Cons.IH [OF this] True r1 s1 show ?thesis
        by (simp add: removal_list_def undersized_pair_def undersized_def)
    next
      case big: False
      with Cons.prems r1 s1 obtain s2 where s2: "stat_size st (reverse_entry e) = Inr s2"
        by (auto split: sum.splits)
      show ?thesis
      proof (cases "int s2 \<le> m")
        case True
        with Cons.prems r1 s1 s2 big
        have "scan st m es (acc @ [e, reverse_entry e]) = Inr L" by simp
        from Cons.IH [OF this] True r1 s1 s2 show ?thesis
          by (simp add: removal_list_def undersized_pair_def undersized_def)
      next
        case False
        with Cons.prems r1 s1 s2 big have "scan st m es acc = Inr L" by simp
        from Cons.IH [OF this] False big r1 s1 s2 show ?thesis
          by (simp add: removal_list_def undersized_pair_def undersized_def)
      qed
    qed
  qed
qed

lemma scan_success_stat:
  "scan st m es acc = Inr L \<Longrightarrow> e \<in> set es \<Longrightarrow> has_R1 e \<Longrightarrow> \<not> undersized_pair st m e \<Longrightarrow>
     (\<exists>s. stat_size st e = Inr s \<and> \<not> int s \<le> m)
     \<and> (\<exists>s. stat_size st (reverse_entry e) = Inr s \<and> \<not> int s \<le> m)"
proof (induction es arbitrary: acc)
  case Nil
  then show ?case by simp
next
  case (Cons a es)
  show ?case
  proof (cases "a = e")
    case True
    with Cons.prems show ?thesis
      by (auto simp: undersized_pair_def undersized_def split: sum.splits if_splits)
  next
    case False
    with Cons.prems have e: "e \<in> set es" by simp
    from Cons.prems(1) obtain acc' where "scan st m es acc' = Inr L"
      by (auto split: sum.splits if_splits)
    from Cons.IH [OF this e Cons.prems(3,4)] show ?thesis .
  qed
qed

lemma scan_error:
  "scan st m es acc = Inl x \<Longrightarrow> \<exists>p. x = FileNotFoundError p"
proof (induction es arbitrary: acc)
  case Nil
  then show ?case by simp
next
  case (Cons a es)
  then show ?case
    by (auto split: sum.splits if_splits dest: stat_size_error)
qed

lemma scan_step:
  "(\<exists>acc'. scan st m (a # es) acc = scan st m es acc') \<or> (\<exists>x. scan st m (a # es) acc = Inl x)"
  by (auto split: sum.splits)

lemma scan_missing_mate:
  assumes "e \<in> set es" "has_R1 e" "stat_size st e = Inr s" "\<not> int s \<le> m"
    "stat_size st (reverse_entry e) = Inl x"
  shows "\<exists>p. scan st m es acc = Inl (FileNotFoundError p)"
  using assms(1)
proof (induction es arbitrary: acc)
  case Nil
  then show ?case by simp
next
  case (Cons a es)
  show ?case
  proof (cases "a = e")
    case True
    with assms stat_size_error [OF assms(5)] show ?thesis by simp
  next
    case False
    with Cons.prems have e: "e \<in> set es" by simp
    show ?thesis
    proof (cases "scan st m (a # es) acc")
      case (Inl y)
      with scan_error [OF Inl] show ?thesis by simp
    next
      case (Inr L)
      with scan_step [of st m a es acc]
      obtain acc' where "scan st m (a # es) acc = scan st m es acc'"
        by auto
      with Cons.IH [OF e, of acc'] show ?thesis by simp
    qed
  qed
qed

subsection \<open>The moves\<close>

lemma map_of_filter_fst:
  "map_of (filter (\<lambda>x. P (fst x)) d) k = (if P k then map_of d k else None)"
  by (induction d) auto

lemma move_success:
  assumes "move item st = Inr st'" "zero_files st = Directory z" "filtered st = Some d"
  shows "item \<in> fst ` set d \<and> item \<notin> fst ` set z
    \<and> filtered st' = Some (filter (\<lambda>x. fst x \<noteq> item) d)
    \<and> (\<exists>s. zero_files st' = Directory (z @ [(item, s)]))"
proof -
  from assms have nz: "item \<notin> fst ` set z"
    by (auto simp: move_def split: if_splits)
  with assms obtain s where s: "map_of d item = Some s"
    and st': "st' = st\<lparr>filtered := Some (filter (\<lambda>x. fst x \<noteq> item) d),
                      zero_files := Directory (z @ [(item, s)])\<rparr>"
    by (auto simp: move_def take_out_def split: option.splits)
  from s have "item \<in> fst ` set d"
    by (metis map_of_SomeD fst_conv image_eqI)
  with nz st' show ?thesis by simp
qed

lemma move_all_success:
  "move_all L st = (None, st') \<Longrightarrow> zero_files st = Directory z \<Longrightarrow> filtered st = Some d \<Longrightarrow>
     filtered st' = Some (filter (\<lambda>x. fst x \<notin> set L) d)
     \<and> (\<exists>z'. zero_files st' = Directory z' \<and> fst ` set z' = fst ` set z \<union> set L)"
proof (induction L arbitrary: st z d)
  case Nil
  then show ?case by simp
next
  case (Cons item L)
  from Cons.prems(1) obtain st1 where m: "move item st = Inr st1"
    and rest: "move_all L st1 = (None, st')"
    by (auto split: sum.splits)
  from move_success [OF m Cons.prems(2,3)] obtain s where
    f1: "filtered st1 = Some (filter (\<lambda>x. fst x \<noteq> item) d)"
    and z1: "zero_files st1 = Directory (z @ [(item, s)])"
    by auto
  from Cons.IH [OF rest z1 f1] obtain z' where
    f': "filtered st' = Some (filter (\<lambda>x. fst x \<notin> set L) (filter (\<lambda>x. fst x \<noteq> item) d))"
    and z': "zero_files st' = Directory z'"
      "fst ` set z' = fst ` set (z @ [(item, s)]) \<union> set L"
    by auto
  have "filter (\<lambda>x. fst x \<notin> set L) (filter (\<lambda>x. fst x \<noteq> item) d)
      = filter (\<lambda>x. fst x \<notin> set (item # L)) d"
    by (induction d) auto
  with f' z' show ?case by auto
qed

lemma in_removal_list:
  "filtered st = Some d \<Longrightarrow>
     n \<in> set (removal_list st m (map fst d)) \<longleftrightarrow> in_undersized_pair st m n"
  by (auto simp: removal_list_def in_undersized_pair_def list_ex_iff)

lemma filter_qc_success:
  assumes "filter_qc m st = (Inr v, st')"
  shows "\<exists>d. filtered st = Some d \<and> v = PyNone
    \<and> scan st m (map fst d) [] = Inr (removal_list st m (map fst d))
    \<and> filtered st' = Some (filter (\<lambda>x. fst x \<notin> set (removal_list st m (map fst d))) d)
    \<and> (\<forall>n\<in>set (removal_list st m (map fst d)). in_zero st' n)"
proof -
  from assms obtain d where d: "filtered st = Some d"
    by (auto simp: filter_qc_def listdir_def split: option.splits)
  let ?L = "removal_list st m (map fst d)"
  from assms d obtain L where "scan st m (map fst d) [] = Inr L"
    by (auto simp: filter_qc_def listdir_def split: sum.splits)
  with scan_success [OF this] have sc: "scan st m (map fst d) [] = Inr ?L" by simp
  show ?thesis
  proof (cases "?L = []")
    case True
    with assms d sc have "v = PyNone" "st' = st"
      by (auto simp: filter_qc_def listdir_def)
    with d sc True show ?thesis by simp
  next
    case False
    with assms d sc obtain st1 where mk: "makedirs st = Inr st1"
      and mv: "move_all ?L st1 = (None, st')" and v: "v = PyNone"
      by (auto simp: filter_qc_def listdir_def split: sum.splits option.splits prod.splits)
    from mk obtain z where z: "zero_files st1 = Directory z" and f: "filtered st1 = filtered st"
      by (auto simp: makedirs_def split: zero_dir.splits)
    from move_all_success [OF mv z] f d obtain z' where
      "filtered st' = Some (filter (\<lambda>x. fst x \<notin> set ?L) d)"
      "zero_files st' = Directory z'" "fst ` set z' = fst ` set z \<union> set ?L"
      by auto
    with d v sc show ?thesis by (auto simp: in_zero_def)
  qed
qed

lemma filter_qc_remaining:
  assumes "filter_qc m st = (Inr v, st')"
  shows "in_filtered st' n \<longleftrightarrow> in_filtered st n \<and> \<not> in_undersized_pair st m n"
proof -
  from filter_qc_success [OF assms] obtain d where d: "filtered st = Some d"
    and f': "filtered st' = Some (filter (\<lambda>x. fst x \<notin> set (removal_list st m (map fst d))) d)"
    by auto
  from in_removal_list [OF d, of n m] d f' show ?thesis
    by (auto simp: in_filtered_def)
qed

subsection \<open>Which files the quarantine moves\<close>

text \<open>
  C3 (as the code has it). Whenever \<^verbatim>\<open>_filter\<close> completes without raising: a
  file is still in the filtered directory afterwards exactly when it was there
  before and is not a member of a pair with an undersized side; every member of
  such a pair is in the quarantine directory; and for every mate-1 entry whose
  own size or whose mate's size is at most \<open>minimum_bytes\<close>, both the entry and
  its mate have left the filtered directory and are in the quarantine directory.
  So a pair whose two sides exceed the threshold stays in place, unless one of its
  files is also a member of another, undersized pair.
\<close>

theorem undersized_pairs_are_moved_as_units:
  assumes "filter_qc m st = (Inr v, st')"
  shows "(in_filtered st' n \<longleftrightarrow> in_filtered st n \<and> \<not> in_undersized_pair st m n)
    \<and> (in_undersized_pair st m n \<longrightarrow> in_zero st' n)
    \<and> (in_filtered st e \<and> undersized_pair st m e \<longrightarrow>
         in_zero st' e \<and> in_zero st' (reverse_entry e)
         \<and> \<not> in_filtered st' e \<and> \<not> in_filtered st' (reverse_entry e))"
proof -
  from filter_qc_success [OF assms] obtain d where d: "filtered st = Some d"
    and f': "filtered st' = Some (filter (\<lambda>x. fst x \<notin> set (removal_list st m (map fst d))) d)"
    and z': "\<forall>n\<in>set (removal_list st m (map fst d)). in_zero st' n"
    by auto
  have mem: "n \<in> set (removal_list st m (map fst d)) \<longleftrightarrow> in_undersized_pair st m n" for n
    using d by (rule in_removal_list)
  have a: "in_filtered st' n \<longleftrightarrow> in_filtered st n \<and> \<not> in_undersized_pair st m n" for n
    using assms by (rule filter_qc_remaining)
  have b: "in_undersized_pair st m n \<longrightarrow> in_zero st' n" for n
    using z' mem [of n] by auto
  have c: "in_undersized_pair st m e \<and> in_undersized_pair st m (reverse_entry e)"
    if "in_filtered st e" "undersized_pair st m e"
    using that d by (auto simp: in_undersized_pair_def in_filtered_def list_ex_iff)
  from a b c show ?thesis by blast
qed

lemmas filter_qc_eval =
  filter_qc_def listdir_def stat_size_def makedirs_def move_def take_out_def

lemma example_outputs_run:
  "filter_qc 500 example_outputs =
     (Inr PyNone,
      \<lparr>filtered = Some [(''s2_R1_001.fastq.gz'', 5000), (''s2_R2_001.fastq.gz'', 5000)],
       zero_files = Directory [(''s1_R1_001.fastq.gz'', 400), (''s1_R2_001.fastq.gz'', 10000)]\<rparr>)"
  by (simp add: example_outputs_def filter_qc_eval)

theorem undersized_pairs_are_moved_as_units_witness:
  "in_filtered example_outputs ''s1_R1_001.fastq.gz''
   \<and> undersized_pair example_outputs 500 ''s1_R1_001.fastq.gz''
   \<and> in_zero (snd (filter_qc 500 example_outputs)) ''s1_R1_001.fastq.gz''
   \<and> in_zero (snd (filter_qc 500 example_outputs)) ''s1_R2_001.fastq.gz''
   \<and> \<not> in_filtered (snd (filter_qc 500 example_outputs)) ''s1_R1_001.fastq.gz''
   \<and> \<not> in_filtered (snd (filter_qc 500 example_outputs)) ''s1_R2_001.fastq.gz''
   \<and> \<not> in_undersized_pair example_outputs 500 ''s2_R2_001.fastq.gz''
   \<and> in_filtered (snd (filter_qc 500 example_outputs)) ''s2_R2_001.fastq.gz''"
proof -
  have run: "filter_qc 500 example_outputs = (Inr PyNone, snd (filter_qc 500 example_outputs))"
    by (simp add: example_outputs_run)
  have a: "in_filtered example_outputs ''s1_R1_001.fastq.gz''"
    by (simp add: in_filtered_def example_outputs_def)
  have b: "undersized_pair example_outputs 500 ''s1_R1_001.fastq.gz''"
    by (simp add: undersized_pair_def undersized_def stat_size_def example_outputs_def)
  have c: "in_filtered example_outputs ''s2_R2_001.fastq.gz''"
    by (simp add: in_filtered_def example_outputs_def)
  have d: "\<not> in_undersized_pair example_outputs 500 ''s2_R2_001.fastq.gz''"
    by (simp add: in_undersized_pair_def undersized_pair_def undersized_def stat_size_def
        example_outputs_def)
  from undersized_pairs_are_moved_as_units [OF run, of "''s2_R2_001.fastq.gz''"
      "''s1_R1_001.fastq.gz''"] a b c d
  show ?thesis by simp
qed

text \<open>
  A pair with an undersized side that is not moved: the quarantine directory
  already holds a file of the same name, \<^verbatim>\<open>shutil.move\<close> raises and both files
  stay where they are. And a pair whose two sides exceed the threshold that is
  moved, in a run that does not raise: each of its files is also the mate of an
  undersized entry.
\<close>

theorem existing_destination_counterexample:
  "in_filtered rerun_outputs ''s1_R1_001.fastq.gz''
   \<and> reverse_entry ''s1_R1_001.fastq.gz'' = ''s1_R2_001.fastq.gz''
   \<and> in_filtered rerun_outputs ''s1_R2_001.fastq.gz''
   \<and> stat_size rerun_outputs ''s1_R1_001.fastq.gz'' = Inr 400
   \<and> filter_qc 500 rerun_outputs = (Inl (ShutilError ''s1_R1_001.fastq.gz''), rerun_outputs)
   \<and> has_R1 ''a_R2_R1_b''
   \<and> reverse_entry ''a_R2_R1_b'' = ''a_R2_R2_b''
   \<and> stat_size crossed_outputs ''a_R2_R1_b'' = Inr 5000
   \<and> stat_size crossed_outputs ''a_R2_R2_b'' = Inr 5000
   \<and> filter_qc 500 crossed_outputs =
       (Inr PyNone,
        \<lparr>filtered = Some [],
         zero_files = Directory [(''a_R1_R1_b'', 100), (''a_R2_R1_b'', 5000),
                                 (''a_R1_R2_b'', 100), (''a_R2_R2_b'', 5000)]\<rparr>)"
  by (simp add: rerun_outputs_def crossed_outputs_def in_filtered_def filter_qc_eval)

subsection \<open>Running the quarantine twice\<close>

lemma scan_settled:
  assumes "\<forall>e\<in>set es. has_R1 e \<longrightarrow>
      (\<exists>s. stat_size st e = Inr s \<and> \<not> int s \<le> m)
      \<and> (\<forall>s2. stat_size st (reverse_entry e) = Inr s2 \<longrightarrow> \<not> int s2 \<le> m)"
  shows "scan st m es acc = Inr acc \<or> (\<exists>p. scan st m es acc = Inl (FileNotFoundError p))"
  using assms
proof (induction es)
  case Nil
  then show ?case by simp
next
  case (Cons a es)
  then have ih: "scan st m es acc = Inr acc \<or> (\<exists>p. scan st m es acc = Inl (FileNotFoundError p))"
    by simp
  show ?case
  proof (cases "has_R1 a")
    case False
    with ih show ?thesis by simp
  next
    case True
    with Cons.prems obtain s where s: "stat_size st a = Inr s" "\<not> int s \<le> m"
      and r: "\<forall>s2. stat_size st (reverse_entry a) = Inr s2 \<longrightarrow> \<not> int s2 \<le> m"
      by auto
    show ?thesis
    proof (cases "stat_size st (reverse_entry a)")
      case (Inl x)
      with True s stat_size_error [OF Inl] show ?thesis by simp
    next
      case (Inr s2)
      with r have "\<not> int s2 \<le> m" by simp
      with True s Inr ih show ?thesis by simp
    qed
  qed
qed

lemma scan_settled_present:
  assumes "\<forall>e\<in>set es. has_R1 e \<longrightarrow>
      (\<exists>s. stat_size st e = Inr s \<and> \<not> int s \<le> m)
      \<and> (\<exists>s2. stat_size st (reverse_entry e) = Inr s2 \<and> \<not> int s2 \<le> m)"
  shows "scan st m es acc = Inr acc"
  using assms by (induction es) auto

lemma stat_size_after:
  assumes "filtered st = Some d" "filtered st' = Some (filter (\<lambda>x. fst x \<notin> L) d)"
  shows "stat_size st' n = (if n \<in> L then Inl (FileNotFoundError n) else stat_size st n)"
  using assms by (simp add: stat_size_def map_of_filter_fst [where P = "\<lambda>k. k \<notin> L"])

lemma filter_qc_of_scan:
  assumes "filtered st = Some d"
  shows "scan st m (map fst d) [] = Inr [] \<Longrightarrow> filter_qc m st = (Inr PyNone, st)"
    and "scan st m (map fst d) [] = Inl x \<Longrightarrow> filter_qc m st = (Inl x, st)"
  using assms by (simp_all add: filter_qc_def listdir_def)

text \<open>
  C4 (as the code has it). After a first run that completed without raising, a
  second run moves nothing: it leaves both directories as they are, and it either
  returns or raises \<^verbatim>\<open>FileNotFoundError\<close> from its scan. It returns, without
  error, whenever no file of the original directory belonged to two pairs. The
  files that were not members of an undersized pair, \<^verbatim>\<open>_R1_\<close> files among
  them, are still in the source directory after the first run.
\<close>

theorem second_run_moves_nothing:
  assumes "filter_qc m st = (Inr v, st')"
  shows "snd (filter_qc m st') = st'
    \<and> (fst (filter_qc m st') = Inr PyNone
        \<or> (\<exists>p. fst (filter_qc m st') = Inl (FileNotFoundError p)))
    \<and> (pairs_disjoint st \<longrightarrow> filter_qc m st' = (Inr PyNone, st'))
    \<and> (in_filtered st n \<and> \<not> in_undersized_pair st m n \<longrightarrow> in_filtered st' n)"
proof -
  from filter_qc_success [OF assms] obtain d where d: "filtered st = Some d"
    and sc: "scan st m (map fst d) [] = Inr (removal_list st m (map fst d))"
    and f': "filtered st' = Some (filter (\<lambda>x. fst x \<notin> set (removal_list st m (map fst d))) d)"
    by auto
  let ?L = "set (removal_list st m (map fst d))"
  let ?d' = "filter (\<lambda>x. fst x \<notin> ?L) d"
  have mem: "n \<in> ?L \<longleftrightarrow> in_undersized_pair st m n" for n
    using d by (rule in_removal_list)
  have stat': "stat_size st' n = (if n \<in> ?L then Inl (FileNotFoundError n) else stat_size st n)"
    for n using d f' by (rule stat_size_after)
  have kept: "\<not> undersized_pair st m e \<and> e \<in> set (map fst d) \<and> e \<notin> ?L"
    if "e \<in> set (map fst ?d')" for e
  proof -
    from that have e: "e \<in> set (map fst d)" "e \<notin> ?L" by auto
    with mem [of e] d have "\<not> undersized_pair st m e"
      by (auto simp: in_undersized_pair_def list_ex_iff)
    with e show ?thesis by simp
  qed
  have big: "(\<exists>s. stat_size st e = Inr s \<and> \<not> int s \<le> m)
      \<and> (\<exists>s. stat_size st (reverse_entry e) = Inr s \<and> \<not> int s \<le> m)"
    if "e \<in> set (map fst ?d')" "has_R1 e" for e
    using scan_success_stat [OF sc _ that(2)] kept [OF that(1)] by blast
  have settled: "\<forall>e\<in>set (map fst ?d'). has_R1 e \<longrightarrow>
      (\<exists>s. stat_size st' e = Inr s \<and> \<not> int s \<le> m)
      \<and> (\<forall>s2. stat_size st' (reverse_entry e) = Inr s2 \<longrightarrow> \<not> int s2 \<le> m)"
  proof (intro ballI impI)
    fix e assume e: "e \<in> set (map fst ?d')" "has_R1 e"
    from big [OF e] kept [OF e(1)] show "(\<exists>s. stat_size st' e = Inr s \<and> \<not> int s \<le> m)
      \<and> (\<forall>s2. stat_size st' (reverse_entry e) = Inr s2 \<longrightarrow> \<not> int s2 \<le> m)"
      by (auto simp: stat')
  qed
  from scan_settled [OF settled, of "[]"]
  have one: "snd (filter_qc m st') = st'
    \<and> (fst (filter_qc m st') = Inr PyNone
        \<or> (\<exists>p. fst (filter_qc m st') = Inl (FileNotFoundError p)))"
    using filter_qc_of_scan [OF f', of m] by auto
  have two: "filter_qc m st' = (Inr PyNone, st')" if dj: "pairs_disjoint st"
  proof -
    have mate_kept: "reverse_entry e \<notin> ?L" if e: "e \<in> set (map fst ?d')" "has_R1 e" for e
    proof
      assume "reverse_entry e \<in> ?L"
      with mem d obtain e' where e': "e' \<in> set (map fst d)" "undersized_pair st m e'"
        "reverse_entry e = e' \<or> reverse_entry e = reverse_entry e'"
        by (auto simp: in_undersized_pair_def list_ex_iff)
      from e' have r1: "has_R1 e'" by (simp add: undersized_pair_def)
      from kept [OF e(1)] have ed: "e \<in> set (map fst d)" by simp
      from dj d ed e' r1 e(2) have "reverse_entry e \<noteq> e'"
        and "reverse_entry e = reverse_entry e' \<longrightarrow> e = e'"
        by (auto simp: pairs_disjoint_def list_all_iff)
      with e' have "e = e'" by auto
      with e' kept [OF e(1)] show False by simp
    qed
    have "\<forall>e\<in>set (map fst ?d'). has_R1 e \<longrightarrow>
      (\<exists>s. stat_size st' e = Inr s \<and> \<not> int s \<le> m)
      \<and> (\<exists>s2. stat_size st' (reverse_entry e) = Inr s2 \<and> \<not> int s2 \<le> m)"
    proof (intro ballI impI)
      fix e assume e: "e \<in> set (map fst ?d')" "has_R1 e"
      from big [OF e] kept [OF e(1)] mate_kept [OF e]
      show "(\<exists>s. stat_size st' e = Inr s \<and> \<not> int s \<le> m)
        \<and> (\<exists>s2. stat_size st' (reverse_entry e) = Inr s2 \<and> \<not> int s2 \<le> m)"
        by (auto simp: stat')
    qed
    from scan_settled_present [OF this, of "[]"] show ?thesis
      using filter_qc_of_scan(1) [OF f', of m] by simp
  qed
  from one two filter_qc_remaining [OF assms, of n] show ?thesis by blast
qed

text \<open>
  Two mate-1 entries with the same mate: the first run moves the shared mate
  with the undersized entry, and the second run raises on the entry left behind.
  And in the plain case a file with \<^verbatim>\<open>_R1_\<close> in its name is still in the source
  directory after the first run.
\<close>

theorem second_run_raises_counterexample:
  "filter_qc 500 shared_mate_outputs =
     (Inr PyNone,
      \<lparr>filtered = Some [(''a_R1_b_R1_001.fastq.gz'', 5000)],
       zero_files = Directory [(''a_R1_b_R2_001.fastq.gz'', 100),
                               (''a_R2_b_R2_001.fastq.gz'', 5000)]\<rparr>)
   \<and> filter_qc 500
       \<lparr>filtered = Some [(''a_R1_b_R1_001.fastq.gz'', 5000)],
        zero_files = Directory [(''a_R1_b_R2_001.fastq.gz'', 100),
                                (''a_R2_b_R2_001.fastq.gz'', 5000)]\<rparr>
     = (Inl (FileNotFoundError ''a_R2_b_R2_001.fastq.gz''),
        \<lparr>filtered = Some [(''a_R1_b_R1_001.fastq.gz'', 5000)],
         zero_files = Directory [(''a_R1_b_R2_001.fastq.gz'', 100),
                                 (''a_R2_b_R2_001.fastq.gz'', 5000)]\<rparr>)
   \<and> fst (filter_qc 500 example_outputs) = Inr PyNone
   \<and> has_R1 ''s2_R1_001.fastq.gz''
   \<and> in_filtered (snd (filter_qc 500 example_outputs)) ''s2_R1_001.fastq.gz''"
  by (simp add: shared_mate_outputs_def filter_qc_eval example_outputs_def in_filtered_def)

theorem second_run_moves_nothing_witness:
  "filter_qc 500 example_outputs =
     (Inr PyNone,
      \<lparr>filtered = Some [(''s2_R1_001.fastq.gz'', 5000), (''s2_R2_001.fastq.gz'', 5000)],
       zero_files = Directory [(''s1_R1_001.fastq.gz'', 400), (''s1_R2_001.fastq.gz'', 10000)]\<rparr>)
   \<and> pairs_disjoint example_outputs
   \<and> filter_qc 500
       \<lparr>filtered = Some [(''s2_R1_001.fastq.gz'', 5000), (''s2_R2_001.fastq.gz'', 5000)],
        zero_files = Directory [(''s1_R1_001.fastq.gz'', 400), (''s1_R2_001.fastq.gz'', 10000)]\<rparr>
     = (Inr PyNone,
        \<lparr>filtered = Some [(''s2_R1_001.fastq.gz'', 5000), (''s2_R2_001.fastq.gz'', 5000)],
         zero_files = Directory [(''s1_R1_001.fastq.gz'', 400), (''s1_R2_001.fastq.gz'', 10000)]\<rparr>)"
proof -
  have dj: "pairs_disjoint example_outputs"
    by (simp add: pairs_disjoint_def example_outputs_def)
  from second_run_moves_nothing [OF example_outputs_run, of "''s2_R1_001.fastq.gz''"] dj
    example_outputs_run
  show ?thesis by simp
qed

subsection \<open>What the quarantine returns\<close>

text \<open>
  C8 (as the code has it). For every state of the directories and every
  threshold, a call of \<^verbatim>\<open>_filter\<close> that does not raise evaluates to
  \<^verbatim>\<open>None\<close>: the list of moved paths is a local variable and is not returned.
\<close>

theorem filter_returns_none:
  "fst (filter_qc m st) = Inr v \<Longrightarrow> v = PyNone"
  using filter_qc_success [of m st v "snd (filter_qc m st)"]
  by (metis prod.collapse)

theorem filter_returns_none_witness:
  "fst (filter_qc 500 example_outputs) = Inr PyNone
   \<and> zero_files (snd (filter_qc 500 example_outputs))
       = Directory [(''s1_R1_001.fastq.gz'', 400), (''s1_R2_001.fastq.gz'', 10000)]"
proof -
  have "fst (filter_qc 500 example_outputs) = Inr PyNone"
    by (simp add: example_outputs_run)
  from filter_returns_none [OF this] example_outputs_run show ?thesis by simp
qed

text \<open>
  With one pair moved the value is \<^verbatim>\<open>None\<close>, not the list of the two paths;
  with nothing to move it is \<^verbatim>\<open>None\<close>, not the empty list.
\<close>

theorem no_list_returned_counterexample:
  "fst (filter_qc 500 example_outputs) = Inr PyNone
   \<and> fst (filter_qc 500 example_outputs)
       \<noteq> Inr (PyList [''s1_R1_001.fastq.gz'', ''s1_R2_001.fastq.gz''])
   \<and> fst (filter_qc 500 \<lparr>filtered = Some [], zero_files = Missing\<rparr>) = Inr PyNone
   \<and> fst (filter_qc 500 \<lparr>filtered = Some [], zero_files = Missing\<rparr>) \<noteq> Inr (PyList [])"
  by (simp add: example_outputs_run) (simp add: filter_qc_eval)

subsection \<open>A mate-1 file without its mate\<close>

text \<open>
  C9 (as the code has it). If a file of the filtered directory whose name contains
  \<^verbatim>\<open>_R1_\<close> is larger than \<open>minimum_bytes\<close> and has no corresponding
  \<^verbatim>\<open>_R2_\<close> file, \<^verbatim>\<open>_filter\<close> raises \<^verbatim>\<open>FileNotFoundError\<close> during its
  scan, and no file has been moved when the error is raised.
\<close>

theorem missing_mate_of_large_file_raises_in_scan:
  assumes "in_filtered st e" "has_R1 e" "\<not> undersized st m e"
    "\<not> in_filtered st (reverse_entry e)"
  shows "snd (filter_qc m st) = st
    \<and> (\<exists>p. fst (filter_qc m st) = Inl (FileNotFoundError p))"
proof -
  from assms(1) obtain d where d: "filtered st = Some d" and e: "e \<in> set (map fst d)"
    by (auto simp: in_filtered_def split: option.splits)
  from e obtain s where s: "map_of d e = Some s"
    by (metis (no_types) e image_set map_of_eq_None_iff not_Some_eq)
  with d have se: "stat_size st e = Inr s" by (simp add: stat_size_def)
  with assms(3) have big: "\<not> int s \<le> m" by (simp add: undersized_def)
  from assms(4) d have "map_of d (reverse_entry e) = None"
    by (simp add: in_filtered_def map_of_eq_None_iff)
  with d have "stat_size st (reverse_entry e) = Inl (FileNotFoundError (reverse_entry e))"
    by (simp add: stat_size_def)
  from scan_missing_mate [OF e assms(2) se big this, of "[]"]
  obtain p where "scan st m (map fst d) [] = Inl (FileNotFoundError p)" by auto
  from filter_qc_of_scan(2) [OF d this] show ?thesis by simp
qed

theorem missing_mate_of_large_file_raises_in_scan_witness:
  "in_filtered \<lparr>filtered = Some [(''s1_R1_001.fastq.gz'', 5000)], zero_files = Missing\<rparr>
      ''s1_R1_001.fastq.gz''
   \<and> filter_qc 500 \<lparr>filtered = Some [(''s1_R1_001.fastq.gz'', 5000)], zero_files = Missing\<rparr>
     = (Inl (FileNotFoundError ''s1_R2_001.fastq.gz''),
        \<lparr>filtered = Some [(''s1_R1_001.fastq.gz'', 5000)], zero_files = Missing\<rparr>)"
proof -
  let ?st = "\<lparr>filtered = Some [(''s1_R1_001.fastq.gz'', 5000)], zero_files = Missing\<rparr>"
  have a: "in_filtered ?st ''s1_R1_001.fastq.gz''" by (simp add: in_filtered_def)
  have b: "has_R1 ''s1_R1_001.fastq.gz''" by simp
  have c: "\<not> undersized ?st 500 ''s1_R1_001.fastq.gz''"
    by (simp add: undersized_def stat_size_def)
  have d: "\<not> in_filtered ?st (reverse_entry ''s1_R1_001.fastq.gz'')"
    by (simp add: in_filtered_def)
  from missing_mate_of_large_file_raises_in_scan [OF a b c d] a show ?thesis
    by (simp add: filter_qc_eval)
qed

text \<open>
  When the mate-1 file is itself undersized the size of its mate is never read:
  the scan completes, the file is moved, and the error comes from the move of the
  missing mate.
\<close>

theorem small_file_without_mate_counterexample:
  "filter_qc 500 orphan_outputs =
     (Inl (FileNotFoundError ''s1_R2_001.fastq.gz''),
      \<lparr>filtered = Some [], zero_files = Directory [(''s1_R1_001.fastq.gz'', 100)]\<rparr>)
   \<and> snd (filter_qc 500 orphan_outputs) \<noteq> orphan_outputs"
  by (simp add: orphan_outputs_def filter_qc_eval)

section \<open>Properties of the resolution of FASTQ files\<close>

subsection \<open>The regular expression\<close>

lemma greedy_group_sound:
  "greedy_group as s = Some g \<Longrightarrow> \<exists>rest. s = g @ rest \<and> newline \<notin> set g \<and> match_atoms as rest"
proof (induction s arbitrary: g)
  case Nil
  then show ?case by (auto split: if_splits)
next
  case (Cons c cs)
  show ?case
  proof (cases "c \<noteq> newline \<and> greedy_group as cs \<noteq> None")
    case True
    then obtain h where h: "greedy_group as cs = Some h" by auto
    with True Cons.prems have g: "g = c # h" by simp
    from Cons.IH [OF h] obtain rest where "cs = h @ rest" "newline \<notin> set h" "match_atoms as rest"
      by auto
    with g True show ?thesis by auto
  next
    case False
    with Cons.prems have "g = []" "match_atoms as (c # cs)"
      by (auto split: if_splits option.splits)
    then show ?thesis by simp
  qed
qed

lemma greedy_group_complete:
  "newline \<notin> set g' \<Longrightarrow> match_atoms as rest \<Longrightarrow> \<exists>g. greedy_group as (g' @ rest) = Some g"
proof (induction g')
  case Nil
  then show ?case by (cases rest) (auto split: option.splits)
next
  case (Cons c g')
  then obtain h where "greedy_group as (g' @ rest) = Some h" by auto
  with Cons.prems show ?case by auto
qed

lemma greedy_group_longest:
  "greedy_group as s = Some g \<Longrightarrow> s = g' @ rest \<Longrightarrow> newline \<notin> set g' \<Longrightarrow>
     match_atoms as rest \<Longrightarrow> length g' \<le> length g"
proof (induction s arbitrary: g g' rest)
  case Nil
  then show ?case by simp
next
  case (Cons c cs)
  show ?case
  proof (cases g')
    case Nil
    then show ?thesis by simp
  next
    case (Cons c' g'')
    with Cons.prems have c: "c' = c" "c \<noteq> newline" and cs: "cs = g'' @ rest"
      and nl: "newline \<notin> set g''"
      by auto
    from greedy_group_complete [OF nl Cons.prems(4)] cs obtain h where
      h: "greedy_group as cs = Some h" by auto
    with c Cons.prems(1) have g: "g = c # h" by simp
    from Cons.IH [OF h cs nl Cons.prems(4)] g Cons show ?thesis by simp
  qed
qed

lemma match_atoms_Cons:
  "match_atoms (a # as) s \<longleftrightarrow> (\<exists>c cs. s = c # cs \<and> atom_matches a c \<and> match_atoms as cs)"
  by (cases s) auto

lemma match_fastq_atoms_fwd:
  "match_atoms fastq_atoms s \<Longrightarrow>
     (\<exists>mate i1 i2 i3 dot1 dot2 rest.
        s = ''_R'' @ [mate] @ ''_'' @ [i1, i2, i3] @ [dot1] @ ''fastq'' @ [dot2] @ ''gz'' @ rest
        \<and> is_digit mate \<and> is_digit i1 \<and> is_digit i2 \<and> is_digit i3
        \<and> dot1 \<noteq> newline \<and> dot2 \<noteq> newline)"
  unfolding fastq_atoms_def by (clarsimp simp: match_atoms_Cons)

lemma match_fastq_atoms_bwd:
  "is_digit mate \<Longrightarrow> is_digit i1 \<Longrightarrow> is_digit i2 \<Longrightarrow> is_digit i3 \<Longrightarrow>
   dot1 \<noteq> newline \<Longrightarrow> dot2 \<noteq> newline \<Longrightarrow>
   match_atoms fastq_atoms
     (''_R'' @ [mate] @ ''_'' @ [i1, i2, i3] @ [dot1] @ ''fastq'' @ [dot2] @ ''gz'' @ rest)"
  unfolding fastq_atoms_def by simp

lemma fastq_name_iff:
  "fastq_name sample_id file_name \<longleftrightarrow>
     (\<exists>rest. file_name = sample_id @ rest \<and> newline \<notin> set sample_id
        \<and> match_atoms fastq_atoms rest)"
proof
  assume "fastq_name sample_id file_name"
  then obtain mate i1 i2 i3 dot1 dot2 rest where
    f: "file_name = sample_id @ ''_R'' @ [mate] @ ''_'' @ [i1, i2, i3] @ [dot1] @ ''fastq''
                      @ [dot2] @ ''gz'' @ rest"
    and d: "is_digit mate" "is_digit i1" "is_digit i2" "is_digit i3"
      "dot1 \<noteq> newline" "dot2 \<noteq> newline"
    and n: "newline \<notin> set sample_id"
    unfolding fastq_name_def by blast
  from match_fastq_atoms_bwd [OF d, of rest] f n
  show "\<exists>rest. file_name = sample_id @ rest \<and> newline \<notin> set sample_id
        \<and> match_atoms fastq_atoms rest"
    by blast
next
  assume "\<exists>rest. file_name = sample_id @ rest \<and> newline \<notin> set sample_id
        \<and> match_atoms fastq_atoms rest"
  then obtain rest where f: "file_name = sample_id @ rest" and n: "newline \<notin> set sample_id"
    and m: "match_atoms fastq_atoms rest"
    by blast
  from match_fastq_atoms_fwd [OF m] obtain mate i1 i2 i3 dot1 dot2 rest' where
    "rest = ''_R'' @ [mate] @ ''_'' @ [i1, i2, i3] @ [dot1] @ ''fastq'' @ [dot2] @ ''gz'' @ rest'"
    "is_digit mate" "is_digit i1" "is_digit i2" "is_digit i3"
    "dot1 \<noteq> newline" "dot2 \<noteq> newline"
    by blast
  with f n show "fastq_name sample_id file_name"
    unfolding fastq_name_def by blast
qed

lemma re_match_extracted_id:
  "re_match file_name = Some sample_id \<longleftrightarrow> extracted_id file_name sample_id"
proof
  assume m: "re_match file_name = Some sample_id"
  then have g: "greedy_group fastq_atoms file_name = Some sample_id"
    by (simp add: re_match_def)
  from greedy_group_sound [OF g] have "fastq_name sample_id file_name"
    by (simp add: fastq_name_iff)
  moreover have "length s \<le> length sample_id" if "fastq_name s file_name" for s
    using that greedy_group_longest [OF g] by (auto simp: fastq_name_iff)
  ultimately show "extracted_id file_name sample_id"
    by (simp add: extracted_id_def)
next
  assume e: "extracted_id file_name sample_id"
  then obtain rest where rest: "file_name = sample_id @ rest" "newline \<notin> set sample_id"
    "match_atoms fastq_atoms rest"
    by (auto simp: extracted_id_def fastq_name_iff)
  from greedy_group_complete [OF rest(2,3)] rest(1) obtain g where
    g: "greedy_group fastq_atoms file_name = Some g" by auto
  from greedy_group_sound [OF g] obtain rest' where rest': "file_name = g @ rest'"
    "newline \<notin> set g" "match_atoms fastq_atoms rest'"
    by auto
  then have "fastq_name g file_name" by (auto simp: fastq_name_iff)
  with e have "length g \<le> length sample_id" by (simp add: extracted_id_def)
  moreover from greedy_group_longest [OF g rest] have "length sample_id \<le> length g" .
  ultimately have "length g = length sample_id" by simp
  with rest(1) rest'(1) have "g = sample_id" by (metis append_eq_append_conv)
  with g show "re_match file_name = Some sample_id" by (simp add: re_match_def)
qed

subsection \<open>The loop\<close>

lemma keep_known_filter:
  "keep_known ids files_found lst =
     lst @ filter (\<lambda>p. \<exists>sample_id. sample_id \<in> set ids
                        \<and> re_match (snd (split_path p)) = Some sample_id) files_found"
proof (induction files_found arbitrary: lst)
  case Nil
  then show ?case by simp
next
  case (Cons some_file files_found)
  then show ?case
    by (cases "split_path some_file") (auto split: option.splits)
qed

lemma resolve_filter:
  "find_fastq_files self project_name tree =
     filter (\<lambda>p. \<exists>sample_id. (sample_id, project_name) \<in> set (sample_ids self)
                    \<and> extracted_id (snd (split_path p)) sample_id)
       (find_fastq_files_in_run_dir self project_name tree)"
proof -
  have "sample_id \<in> set (map fst (filter (\<lambda>c. snd c = project_name) (sample_ids self)))
      \<longleftrightarrow> (sample_id, project_name) \<in> set (sample_ids self)" for sample_id
    by force
  then show ?thesis
    by (simp add: find_fastq_files_def Let_def keep_known_filter re_match_extracted_id)
qed

lemma fastq_name_length:
  "fastq_name s file_name \<Longrightarrow> length s + 16 \<le> length file_name"
  by (auto simp: fastq_name_def)

lemma exact_is_fastq_name:
  assumes "exact_fastq_name sample_id file_name"
  shows "fastq_name sample_id file_name"
proof -
  from assms obtain mate i1 i2 i3 where
    f: "file_name = sample_id @ ''_R'' @ [mate] @ ''_'' @ [i1, i2, i3] @ ''.fastq.gz''"
    and d: "is_digit mate" "is_digit i1" "is_digit i2" "is_digit i3"
    and n: "newline \<notin> set sample_id"
    unfolding exact_fastq_name_def by blast
  have dot: "CHR ''.'' \<noteq> newline" by (simp add: newline_def)
  from f have "file_name = sample_id @ ''_R'' @ [mate] @ ''_'' @ [i1, i2, i3] @ [CHR ''.'']
      @ ''fastq'' @ [CHR ''.''] @ ''gz'' @ []"
    by simp
  with d n dot show ?thesis
    unfolding fastq_name_def by blast
qed

lemma exact_fastq_name_length:
  "exact_fastq_name sample_id file_name \<Longrightarrow> length file_name = length sample_id + 16"
  by (auto simp: exact_fastq_name_def)

lemma exact_extracted_id:
  assumes "exact_fastq_name sample_id file_name"
  shows "extracted_id file_name s \<longleftrightarrow> s = sample_id"
proof
  assume e: "extracted_id file_name s"
  then have fs: "fastq_name s file_name" by (simp add: extracted_id_def)
  from e exact_is_fastq_name [OF assms] have "length sample_id \<le> length s"
    by (simp add: extracted_id_def)
  moreover from fastq_name_length [OF fs] exact_fastq_name_length [OF assms]
  have "length s \<le> length sample_id" by simp
  ultimately have len: "length s = length sample_id" by simp
  from fs obtain r1 where "file_name = s @ r1" unfolding fastq_name_def by blast
  moreover from assms obtain r2 where "file_name = sample_id @ r2"
    unfolding exact_fastq_name_def by blast
  ultimately show "s = sample_id" using len by (metis append_eq_append_conv)
next
  assume s: "s = sample_id"
  have "length t \<le> length sample_id" if "fastq_name t file_name" for t
    using fastq_name_length [OF that] exact_fastq_name_length [OF assms] by simp
  with exact_is_fastq_name [OF assms] s show "extracted_id file_name s"
    by (simp add: extracted_id_def)
qed

lemma fastq_name_begins:
  "fastq_name sample_id file_name \<Longrightarrow> begins_as_fastq_name sample_id file_name"
  unfolding fastq_name_def begins_as_fastq_name_def by blast

subsection \<open>Which files are resolved\<close>

text \<open>
  C5 (as the code has it). For every list of sample identities and every set of
  files found under the project's input location whose names are ASCII:
  \<^verbatim>\<open>_find_fastq_files\<close> returns files found only, in the order found; a file
  found whose name is exactly a sample id without line break, \<^verbatim>\<open>_R\<close>, a
  decimal digit (any digit, not only 1 or 2), \<^verbatim>\<open>_\<close>, three digits and
  \<^verbatim>\<open>.fastq.gz\<close> is returned exactly when that sample id belongs to the
  project; and every file returned has a name that begins with a sample id of
  the project, \<^verbatim>\<open>_R\<close>, a digit, \<^verbatim>\<open>_\<close> and three digits. Every other file is
  left out, and nothing raises.
\<close>

theorem resolve_keeps_files_of_known_samples:
  assumes "\<forall>q\<in>set (find_fastq_files_in_run_dir self project_name tree).
             list_all is_ascii (snd (split_path q))"
  shows "find_fastq_files self project_name tree =
           filter (\<lambda>q. q \<in> set (find_fastq_files self project_name tree))
             (find_fastq_files_in_run_dir self project_name tree)
    \<and> (p \<in> set (find_fastq_files self project_name tree) \<longrightarrow>
          (\<exists>sample_id. (sample_id, project_name) \<in> set (sample_ids self)
             \<and> begins_as_fastq_name sample_id (snd (split_path p))))
    \<and> (p \<in> set (find_fastq_files_in_run_dir self project_name tree)
          \<and> exact_fastq_name sample_id (snd (split_path p)) \<longrightarrow>
          (p \<in> set (find_fastq_files self project_name tree)
             \<longleftrightarrow> (sample_id, project_name) \<in> set (sample_ids self)))"
proof -
  let ?F = "find_fastq_files_in_run_dir self project_name tree"
  let ?P = "\<lambda>p. \<exists>s. (s, project_name) \<in> set (sample_ids self)
                    \<and> extracted_id (snd (split_path p)) s"
  have r: "find_fastq_files self project_name tree = filter ?P ?F" by (rule resolve_filter)
  have a: "filter ?P ?F = filter (\<lambda>q. q \<in> set (filter ?P ?F)) ?F"
    by (rule filter_cong) auto
  have b: "\<exists>s. (s, project_name) \<in> set (sample_ids self)
             \<and> begins_as_fastq_name s (snd (split_path p))"
    if "p \<in> set (filter ?P ?F)"
    using that by (auto simp: extracted_id_def dest: fastq_name_begins)
  have c: "p \<in> set (filter ?P ?F) \<longleftrightarrow> (sample_id, project_name) \<in> set (sample_ids self)"
    if "p \<in> set ?F" "exact_fastq_name sample_id (snd (split_path p))"
    using that(1) exact_extracted_id [OF that(2)] by auto
  from a b c show ?thesis unfolding r by blast
qed

lemmas find_fastq_eval =
  find_fastq_files_def find_fastq_files_in_run_dir_def walk_from_def search_path_def join_def
  example_job_def suffix_to_prefix split_path_def re_match_def fastq_atoms_def is_digit_def
  newline_def

lemma example_tree_resolved:
  "find_fastq_files example_job ''ProjectA'' (Some example_tree) =
     [''/run/Data/Fastq/ProjectA/s1_R1_001.fastq.gz'',
      ''/run/Data/Fastq/ProjectA/s1_R2_001.fastq.gz'',
      ''/run/Data/Fastq/ProjectA/s2_R1_001.fastq.gz'',
      ''/run/Data/Fastq/ProjectA/s2_R3_001.fastq.gz'']"
  by (simp add: find_fastq_eval example_tree_def)

theorem resolve_keeps_files_of_known_samples_witness:
  "''/run/Data/Fastq/ProjectA/s1_R1_001.fastq.gz''
      \<in> set (find_fastq_files_in_run_dir example_job ''ProjectA'' (Some example_tree))
   \<and> exact_fastq_name ''s1'' ''s1_R1_001.fastq.gz''
   \<and> (''s1'', ''ProjectA'') \<in> set (sample_ids example_job)
   \<and> ''/run/Data/Fastq/ProjectA/s1_R1_001.fastq.gz''
      \<in> set (find_fastq_files example_job ''ProjectA'' (Some example_tree))
   \<and> ''/run/Data/Fastq/ProjectA/t1_R1_001.fastq.gz''
      \<in> set (find_fastq_files_in_run_dir example_job ''ProjectA'' (Some example_tree))
   \<and> exact_fastq_name ''t1'' ''t1_R1_001.fastq.gz''
   \<and> (''t1'', ''ProjectA'') \<notin> set (sample_ids example_job)
   \<and> ''/run/Data/Fastq/ProjectA/t1_R1_001.fastq.gz''
      \<notin> set (find_fastq_files example_job ''ProjectA'' (Some example_tree))"
proof -
  let ?F = "find_fastq_files_in_run_dir example_job ''ProjectA'' (Some example_tree)"
  have F: "?F = [''/run/Data/Fastq/ProjectA/s1_R1_001.fastq.gz'',
      ''/run/Data/Fastq/ProjectA/s1_R2_001.fastq.gz'',
      ''/run/Data/Fastq/ProjectA/t1_R1_001.fastq.gz'',
      ''/run/Data/Fastq/ProjectA/s2_R1_001.fastq.gz'',
      ''/run/Data/Fastq/ProjectA/s2_R3_001.fastq.gz'']"
    by (simp add: find_fastq_eval example_tree_def)
  have ascii: "\<forall>q\<in>set ?F. list_all is_ascii (snd (split_path q))"
    unfolding F by (simp add: split_path_def is_ascii_def)
  have e1: "exact_fastq_name ''s1'' ''s1_R1_001.fastq.gz''"
    and e2: "exact_fastq_name ''t1'' ''t1_R1_001.fastq.gz''"
    by (simp_all add: exact_fastq_name_def is_digit_def newline_def)
  have t1: "snd (split_path ''/run/Data/Fastq/ProjectA/s1_R1_001.fastq.gz'') = ''s1_R1_001.fastq.gz''"
    and t2: "snd (split_path ''/run/Data/Fastq/ProjectA/t1_R1_001.fastq.gz'') = ''t1_R1_001.fastq.gz''"
    by (simp_all add: split_path_def)
  have s: "(''s1'', ''ProjectA'') \<in> set (sample_ids example_job)"
    "(''t1'', ''ProjectA'') \<notin> set (sample_ids example_job)"
    by (simp_all add: example_job_def)
  from resolve_keeps_files_of_known_samples [OF ascii,
      of "''/run/Data/Fastq/ProjectA/s1_R1_001.fastq.gz''" "''s1''"]
    resolve_keeps_files_of_known_samples [OF ascii,
      of "''/run/Data/Fastq/ProjectA/t1_R1_001.fastq.gz''" "''t1''"]
    e1 e2 s
  show ?thesis unfolding t1 t2 F by simp
qed

text \<open>A file with mate number 3 of a known sample is returned.\<close>

theorem mate_three_is_kept_counterexample:
  "find_fastq_files example_job ''ProjectA'' (Some (DirTree [''s1_R3_001.fastq.gz''] []))
     = [''/run/Data/Fastq/ProjectA/s1_R3_001.fastq.gz'']
   \<and> ''s1_R3_001.fastq.gz'' = ''s1'' @ ''_R'' @ ''3'' @ ''_001.fastq.gz''
   \<and> CHR ''3'' \<noteq> CHR ''1'' \<and> CHR ''3'' \<noteq> CHR ''2''"
  by (simp add: find_fastq_eval)

subsection \<open>The walk\<close>

lemma join_valid_name: "valid_name n \<Longrightarrow> join a n = join a [] @ n"
  by (cases n) (auto simp: join_def valid_name_def)

lemma valid_name_last: "valid_name n \<Longrightarrow> last n \<noteq> CHR ''/''"
  unfolding valid_name_def by (metis last_in_set)

lemma join_empty_nonslash: "r \<noteq> [] \<Longrightarrow> last r \<noteq> CHR ''/'' \<Longrightarrow> join r [] = r @ ''/''"
  by (simp add: join_def)

lemma walk_roots:
  "valid_tree t \<Longrightarrow> (r, ds, fs) \<in> set (walk root t) \<Longrightarrow>
     r = root \<or> (\<exists>rel. r = join root [] @ rel \<and> rel \<noteq> [] \<and> last rel \<noteq> CHR ''/'')"
proof (induction root t arbitrary: r ds fs rule: walk.induct)
  case (1 root file_names dirs)
  show ?case
  proof (cases "r = root")
    case True
    then show ?thesis by simp
  next
    case False
    with "1.prems"(2) obtain name sub where ns: "(name, sub) \<in> set dirs"
      and r: "(r, ds, fs) \<in> set (walk (join root name) sub)"
      by auto
    from ns "1.prems"(1) have v: "valid_name name" "valid_tree sub"
      by (auto simp: list_all_iff)
    from v(1) have jn: "join root name = join root [] @ name" by (rule join_valid_name)
    from v(1) have nm: "name \<noteq> []" "last name \<noteq> CHR ''/''"
      by (simp add: valid_name_def, rule valid_name_last)
    from "1.IH" [OF ns refl v(2) r]
    show ?thesis
    proof
      assume "r = join root name"
      with jn nm show ?thesis by auto
    next
      assume "\<exists>rel. r = join (join root name) [] @ rel \<and> rel \<noteq> [] \<and> last rel \<noteq> CHR ''/''"
      then obtain rel where rel: "r = join (join root name) [] @ rel" "rel \<noteq> []"
        "last rel \<noteq> CHR ''/''"
        by auto
      have "join (join root name) [] = join root [] @ name @ ''/''"
        using jn nm join_empty_nonslash [of "join root [] @ name"] by simp
      with rel have "r = join root [] @ (name @ ''/'' @ rel)" by simp
      moreover from rel have "name @ ''/'' @ rel \<noteq> []" "last (name @ ''/'' @ rel) \<noteq> CHR ''/''"
        by simp_all
      ultimately show ?thesis by blast
    qed
  qed
qed

lemma walk_valid_files:
  "valid_tree t \<Longrightarrow> (r, ds, fs) \<in> set (walk root t) \<Longrightarrow> f \<in> set fs \<Longrightarrow> valid_name f"
proof (induction root t arbitrary: r ds fs rule: walk.induct)
  case (1 root file_names dirs)
  show ?case
  proof (cases "(r, ds, fs) = (root, map fst dirs, file_names)")
    case True
    with "1.prems" show ?thesis by (auto simp: list_all_iff)
  next
    case False
    with "1.prems"(2) obtain name sub where ns: "(name, sub) \<in> set dirs"
      and r: "(r, ds, fs) \<in> set (walk (join root name) sub)"
      by auto
    from ns "1.prems"(1) have "valid_tree sub" by (auto simp: list_all_iff)
    from "1.IH" [OF ns refl this r "1.prems"(3)] show ?thesis .
  qed
qed

lemma nested_path_differs:
  assumes "valid_name f" "rel \<noteq> []" "last rel \<noteq> CHR ''/''"
  shows "join sp f \<noteq> join (join sp [] @ rel) f"
proof -
  have a: "join sp f = join sp [] @ f" using assms(1) by (rule join_valid_name)
  have "join (join sp [] @ rel) [] = join sp [] @ rel @ ''/''"
    using assms(2,3) join_empty_nonslash [of "join sp [] @ rel"] by simp
  with join_valid_name [OF assms(1), of "join sp [] @ rel"]
  have b: "join (join sp [] @ rel) f = join sp [] @ rel @ ''/'' @ f" by simp
  show ?thesis
  proof
    assume "join sp f = join (join sp [] @ rel) f"
    with a b have "f = rel @ ''/'' @ f" by simp
    then have "length f = length (rel @ ''/'' @ f)" by simp
    then show False by simp
  qed
qed

lemma concat_map_files:
  "concat (map (\<lambda>(root, dirs, file_names). map g (filter P file_names)) xs) =
     map g (filter P (concat (map (\<lambda>(root, dirs, file_names). file_names) xs)))"
  by (induction xs) auto

subsection \<open>Where the returned paths point\<close>

text \<open>
  C10. The paths returned by \<^verbatim>\<open>_find_fastq_files_in_run_dir\<close> are the names of
  the \<^verbatim>\<open>fastq.gz\<close> files met by the walk, in the order met, each joined with
  the top-level search directory. So for every such file, in whichever directory
  of the walk it was found, the search directory joined with its base name is
  returned; and when the file was found in a nested directory, that path differs
  from the file's real location, the directory of the walk joined with the name.
\<close>

theorem found_files_are_joined_with_the_search_path:
  "find_fastq_files_in_run_dir self project_name (Some t) =
     map (join (search_path self project_name))
       (filter (suffix ''fastq.gz'')
          (concat (map (\<lambda>(root, dirs, file_names). file_names)
             (walk (search_path self project_name) t))))
   \<and> (valid_tree t \<and> (root, dirs, file_names) \<in> set (walk (search_path self project_name) t)
       \<and> some_file \<in> set file_names \<and> suffix ''fastq.gz'' some_file
      \<longrightarrow> join (search_path self project_name) some_file
            \<in> set (find_fastq_files_in_run_dir self project_name (Some t))
          \<and> (root \<noteq> search_path self project_name
               \<longrightarrow> join (search_path self project_name) some_file \<noteq> join root some_file))"
proof -
  let ?sp = "search_path self project_name"
  have eq: "find_fastq_files_in_run_dir self project_name (Some t) =
     map (join ?sp) (filter (suffix ''fastq.gz'')
        (concat (map (\<lambda>(root, dirs, file_names). file_names) (walk ?sp t))))"
    unfolding find_fastq_files_in_run_dir_def walk_from_def
    by (simp add: concat_map_files)
  have mem: "join ?sp some_file \<in> set (find_fastq_files_in_run_dir self project_name (Some t))"
    if "(root, dirs, file_names) \<in> set (walk ?sp t)" "some_file \<in> set file_names"
      "suffix ''fastq.gz'' some_file"
    unfolding eq using that by force
  have ne: "join ?sp some_file \<noteq> join root some_file"
    if v: "valid_tree t" and w: "(root, dirs, file_names) \<in> set (walk ?sp t)"
      and f: "some_file \<in> set file_names" and r: "root \<noteq> ?sp"
  proof -
    from walk_valid_files [OF v w f] have vf: "valid_name some_file" .
    from walk_roots [OF v w] r obtain rel where "root = join ?sp [] @ rel" "rel \<noteq> []"
      "last rel \<noteq> CHR ''/''"
      by auto
    with nested_path_differs [OF vf this(2,3), of ?sp] show ?thesis by simp
  qed
  from eq mem ne show ?thesis by blast
qed

theorem found_files_are_joined_with_the_search_path_witness:
  "valid_tree example_tree
   \<and> (''/run/Data/Fastq/ProjectA/lane2'', [], [''s2_R1_001.fastq.gz'', ''s2_R3_001.fastq.gz''])
       \<in> set (walk (search_path example_job ''ProjectA'') example_tree)
   \<and> ''/run/Data/Fastq/ProjectA/s2_R1_001.fastq.gz''
       \<in> set (find_fastq_files_in_run_dir example_job ''ProjectA'' (Some example_tree))
   \<and> join (search_path example_job ''ProjectA'') ''s2_R1_001.fastq.gz''
       \<noteq> join ''/run/Data/Fastq/ProjectA/lane2'' ''s2_R1_001.fastq.gz''"
proof -
  have v: "valid_tree example_tree"
    by (simp add: example_tree_def valid_name_def)
  have w: "(''/run/Data/Fastq/ProjectA/lane2'', [], [''s2_R1_001.fastq.gz'', ''s2_R3_001.fastq.gz''])
       \<in> set (walk (search_path example_job ''ProjectA'') example_tree)"
    by (simp add: example_tree_def search_path_def join_def example_job_def)
  have f: "''s2_R1_001.fastq.gz'' \<in> set [''s2_R1_001.fastq.gz'', ''s2_R3_001.fastq.gz'']"
    by simp
  have s: "suffix ''fastq.gz'' ''s2_R1_001.fastq.gz''"
    by (simp add: suffix_to_prefix)
  have r: "''/run/Data/Fastq/ProjectA/lane2'' \<noteq> search_path example_job ''ProjectA''"
    by (simp add: search_path_def join_def example_job_def)
  have j: "join (search_path example_job ''ProjectA'') ''s2_R1_001.fastq.gz''
      = ''/run/Data/Fastq/ProjectA/s2_R1_001.fastq.gz''"
    by (simp add: search_path_def join_def example_job_def)
  from found_files_are_joined_with_the_search_path [of example_job "''ProjectA''" example_tree
      "''/run/Data/Fastq/ProjectA/lane2''" "[]" "[''s2_R1_001.fastq.gz'', ''s2_R3_001.fastq.gz'']"
      "''s2_R1_001.fastq.gz''"] v w f s r
  have "join (search_path example_job ''ProjectA'') ''s2_R1_001.fastq.gz''
         \<in> set (find_fastq_files_in_run_dir example_job ''ProjectA'' (Some example_tree))
       \<and> join (search_path example_job ''ProjectA'') ''s2_R1_001.fastq.gz''
           \<noteq> join ''/run/Data/Fastq/ProjectA/lane2'' ''s2_R1_001.fastq.gz''"
    by blast
  with v w j show ?thesis by simp
qed

end
